theory Spec2Isabelle
  imports Main
begin

section \<open>Values exchanged with the job API\<close>

text \<open>
  The application is a Python script; the bodies it receives from the job API are decoded
  JSON documents. A decoded value is modelled by \<open>json\<close>; Python's \<open>None\<close> is \<open>JNull\<close>.
  Numbers are only ever tested for being zero by the program, so they are kept as integers.
  A decoded object (a Python \<open>dict\<close>) is an association list read with \<open>map_of\<close>.
\<close>

datatype json =
    JNull
  | JBool bool
  | JNum int
  | JStr string
  | JArr "json list"
  | JObj "(string \<times> json) list"

type_synonym dict = "(string \<times> json) list"

text \<open>Python truthiness (\<open>if v:\<close>).\<close>

fun truthy :: "json \<Rightarrow> bool" where
  "truthy JNull = False"
| "truthy (JBool b) = b"
| "truthy (JNum n) = (n \<noteq> 0)"
| "truthy (JStr s) = (s \<noteq> [])"
| "truthy (JArr xs) = (xs \<noteq> [])"
| "truthy (JObj kvs) = (kvs \<noteq> [])"

text \<open>\<open>d.get(k, default)\<close>; \<open>d.get(k)\<close> is \<open>dict_get d k JNull\<close>.\<close>

definition dict_get :: "dict \<Rightarrow> string \<Rightarrow> json \<Rightarrow> json" where
  "dict_get d k dflt = (case map_of d k of None \<Rightarrow> dflt | Some v \<Rightarrow> v)"

text \<open>\<open>k in d\<close>.\<close>

definition dict_has :: "dict \<Rightarrow> string \<Rightarrow> bool" where
  "dict_has d k = (k \<in> set (map fst d))"

datatype py_exn = TypeError | AttributeError | KeyError

section \<open>Session state\<close>

datatype chat_role = User | Assistant

record message =
  role :: chat_role
  content :: json

text \<open>
  The keys of \<open>st.session_state\<close> that the three tabs use. \<open>kickoff_id\<close> and \<open>chat_id\<close> are
  \<open>None\<close> (\<open>JNull\<close>) until set; \<open>submit_clicked\<close> is the key \<open>_submit_clicked\<close>.
\<close>

record session =
  processing :: bool
  kickoff_id :: json
  upload_complete :: bool
  chat_messages :: "message list"
  chat_id :: json
  should_clear_input :: bool
  submit_clicked :: bool

definition init_session :: session where
  "init_session = \<lparr> processing = False, kickoff_id = JNull, upload_complete = False,
                     chat_messages = [], chat_id = JNull, should_clear_input = False,
                     submit_clicked = False \<rparr>"

text \<open>What the script shows to the user (\<open>st.error\<close>, \<open>st.success\<close>, \<open>st.info\<close>, \<open>st.warning\<close>).\<close>

datatype ui_msg =
    ApiRequestFailed
  | KickoffSucceeded json
  | FailedKickoffProcessing
  | InProgress json
  | CurrentState json
  | Done
  | FailedRetrieveStatus
  | TakingLonger
  | ManualRefreshHint
  | NoProcessingStarted
  | ParseErrorMsg
  | RequestFailedState json
  | TimedOutWaiting
  | FailedKickoffId
  | Received json

text \<open>
  One run of the script: the session, the messages shown so far, the payloads posted to the
  kickoff endpoint, the status calls issued (the polled id, and the value of \<open>processing\<close>
  when the call was issued), and the exception that ended the run, if one escaped.
\<close>

record run =
  sess :: session
  ui :: "ui_msg list"
  posted :: "json list"
  calls :: "(json \<times> bool) list"
  raised :: "py_exn option"

definition start_run :: "session \<Rightarrow> run" where
  "start_run s = \<lparr> sess = s, ui = [], posted = [], calls = [], raised = None \<rparr>"

section \<open>api_request\<close>

text \<open>
  What the HTTP layer does with a request: it raises a \<open>RequestException\<close> (connection error,
  HTTP error status, undecodable body), or it yields the decoded body. The bodies of the
  kickoff and status endpoints are JSON objects: the script applies \<open>in\<close>, \<open>[...]\<close> and
  \<open>.get\<close> to them.
\<close>

datatype http_result = RequestException | Body dict

definition api_request :: "http_result \<Rightarrow> ui_msg list \<times> dict option" where
  "api_request h = (case h of
       RequestException \<Rightarrow> ([ApiRequestFailed], None)
     | Body d \<Rightarrow> ([], Some d))"

text \<open>\<open>if resp:\<close> on the value returned by \<open>api_request\<close>: \<open>None\<close> and \<open>{}\<close> are false.\<close>

definition resp_truthy :: "dict option \<Rightarrow> bool" where
  "resp_truthy resp = (case resp of None \<Rightarrow> False | Some d \<Rightarrow> d \<noteq> [])"

text \<open>\<open>kickoff_response and "kickoff_id" in kickoff_response\<close>.\<close>

definition kickoff_ok :: "dict option \<Rightarrow> bool" where
  "kickoff_ok resp = (case resp of None \<Rightarrow> False | Some d \<Rightarrow> d \<noteq> [] \<and> dict_has d ''kickoff_id'')"

section \<open>Process Documents tab\<close>

definition max_attempts :: nat where
  "max_attempts = 30"




text \<open>
  The auto-poll loop. \<open>status kid n\<close> is what the status request for \<open>kid\<close> issued at attempt
  \<open>n\<close> yields. The result carries the loop variables \<open>complete\<close> and \<open>attempts\<close> as they are
  when the loop is left.
\<close>

function auto_poll_loop ::
  "(json \<Rightarrow> nat \<Rightarrow> http_result) \<Rightarrow> bool \<Rightarrow> nat \<Rightarrow> run \<Rightarrow> bool \<times> nat \<times> run" where
  "auto_poll_loop status complete attempts r =
     (if \<not> complete \<and> attempts < max_attempts then
        (let kid = kickoff_id (sess r);
             res = api_request (status kid attempts);
             r1 = r\<lparr>ui := ui r @ fst res, calls := calls r @ [(kid, processing (sess r))]\<rparr>
         in case snd res of
              None \<Rightarrow> (complete, attempts, r1\<lparr>ui := ui r1 @ [FailedRetrieveStatus]\<rparr>)
            | Some d \<Rightarrow>
               if d = [] then (complete, attempts, r1\<lparr>ui := ui r1 @ [FailedRetrieveStatus]\<rparr>)
               else
                 (let current_state = dict_get d ''state'' (JStr ''UNKNOWN'');
                      r2 = r1\<lparr>ui := ui r1 @ [CurrentState current_state]\<rparr>
                  in if current_state = JStr ''SUCCESS''
                     then (True, attempts,
                           r2\<lparr>ui := ui r2 @ [Done], sess := (sess r2)\<lparr>processing := False\<rparr>\<rparr>)
                     else auto_poll_loop status complete (Suc attempts) r2))
      else (complete, attempts, r))"
  by pat_completeness auto
termination
  by (relation "measure (\<lambda>(status, complete, attempts, r). max_attempts - attempts)") auto

declare auto_poll_loop.simps [simp del]

definition auto_poll :: "(json \<Rightarrow> nat \<Rightarrow> http_result) \<Rightarrow> run \<Rightarrow> run" where
  "auto_poll status r =
     (case auto_poll_loop status False 0 r of
        (complete, attempts, r') \<Rightarrow>
          if attempts \<ge> max_attempts \<and> \<not> complete
          then r'\<lparr>ui := ui r' @ [TakingLonger, ManualRefreshHint]\<rparr>
          else r')"



section \<open>Chat tab\<close>

definition max_retries :: nat where
  "max_retries = 120"

text \<open>The payload of a chat kickoff: the conversation id is sent iff one is stored.\<close>

definition chat_input_data :: "session \<Rightarrow> string \<Rightarrow> json" where
  "chat_input_data s current_message =
     (if chat_id s = JNull
      then JObj [(''inputs'', JObj [(''current_message'', JStr current_message)])]
      else JObj [(''inputs'', JObj [(''current_message'', JStr current_message),
                                    (''id'', chat_id s)])])"

text \<open>
  The \<open>try\<close> block entered on \<open>SUCCESS\<close> with a truthy \<open>result\<close>. \<open>loads\<close> is \<open>json.loads\<close>:
  \<open>None\<close> is a \<open>JSONDecodeError\<close>, the only exception the block catches. \<open>json.loads\<close> of
  a value that is not a string raises \<open>TypeError\<close>, and \<open>.get\<close> on a decoded value that is
  not an object raises \<open>AttributeError\<close>; both escape. The block always leaves the loop.
\<close>

definition on_success :: "(string \<Rightarrow> json option) \<Rightarrow> json \<Rightarrow> run \<Rightarrow> run" where
  "on_success loads result r =
     (case result of
        JStr result_str \<Rightarrow>
          (case loads result_str of
             None \<Rightarrow> r\<lparr>ui := ui r @ [ParseErrorMsg]\<rparr>
           | Some (JObj result_data) \<Rightarrow>
               (let response_text = dict_get result_data ''response'' (JStr []);
                    cid = dict_get result_data ''id'' JNull;
                    s1 = (if truthy cid then (sess r)\<lparr>chat_id := cid\<rparr> else sess r);
                    s2 = s1\<lparr>chat_messages := chat_messages s1 @
                                [\<lparr>role = Assistant, content = response_text\<rparr>]\<rparr>
                in r\<lparr>sess := s2\<rparr>)
           | Some _ \<Rightarrow> r\<lparr>raised := Some AttributeError\<rparr>)
      | _ \<Rightarrow> r\<lparr>raised := Some TypeError\<rparr>)"

text \<open>
  One iteration of the chat poll loop, at index \<open>i\<close>, on what the status request yields.
  The first component tells whether the loop is left (\<open>break\<close>, or an escaping exception).
\<close>

definition chat_poll_body ::
  "(string \<Rightarrow> json option) \<Rightarrow> http_result \<Rightarrow> json \<Rightarrow> nat \<Rightarrow> run \<Rightarrow> bool \<times> run" where
  "chat_poll_body loads h kid i r =
     (let res = api_request h;
          status_response = snd res;
          r1 = r\<lparr>ui := ui r @ fst res, calls := calls r @ [(kid, processing (sess r))]\<rparr>;
          state = (case status_response of None \<Rightarrow> JNull | Some d \<Rightarrow> dict_get d ''state'' JNull);
          result = (case status_response of None \<Rightarrow> JNull | Some d \<Rightarrow> dict_get d ''result'' JNull)
      in if resp_truthy status_response \<and> state = JStr ''SUCCESS'' \<and> truthy result
         then (True, on_success loads result r1)
         else if resp_truthy status_response \<and> state \<in> set [JStr ''FAILURE'', JStr ''TIMEOUT'']
         then (True, r1\<lparr>ui := ui r1 @ [RequestFailedState state]\<rparr>)
         else if i = max_retries - 1
         then (False, r1\<lparr>ui := ui r1 @ [TimedOutWaiting]\<rparr>)
         else (False, r1))"

text \<open>\<open>for i in range(max_retries)\<close>, entered at index \<open>i\<close>.\<close>

function chat_poll_loop ::
  "(string \<Rightarrow> json option) \<Rightarrow> (json \<Rightarrow> nat \<Rightarrow> http_result) \<Rightarrow> json \<Rightarrow> nat \<Rightarrow> run \<Rightarrow> run" where
  "chat_poll_loop loads status kid i r =
     (if i < max_retries then
        (let step = chat_poll_body loads (status kid i) kid i r
         in if fst step then snd step
            else chat_poll_loop loads status kid (Suc i) (snd step))
      else r)"
  by pat_completeness auto
termination
  by (relation "measure (\<lambda>(loads, status, kid, i, r). max_retries - i)") auto

declare chat_poll_loop.simps [simp del]

text \<open>
  The handler of a submitted chat message (the body of the \<open>if\<close> that "Send" or Enter
  triggers), up to the \<open>st.rerun()\<close> that ends the pass.
\<close>

definition chat_turn ::
  "(string \<Rightarrow> json option) \<Rightarrow> (json \<Rightarrow> http_result) \<Rightarrow> (json \<Rightarrow> nat \<Rightarrow> http_result) \<Rightarrow>
   string \<Rightarrow> run \<Rightarrow> run" where
  "chat_turn loads kick status user_input r =
     (let current_message = user_input;
          s1 = (sess r)\<lparr>submit_clicked := False\<rparr>;
          s2 = s1\<lparr>chat_messages := chat_messages s1 @
                     [\<lparr>role = User, content = JStr current_message\<rparr>]\<rparr>;
          input_data = chat_input_data s2 current_message;
          res = api_request (kick input_data);
          kickoff_response = snd res;
          r1 = r\<lparr>sess := s2, ui := ui r @ fst res, posted := posted r @ [input_data]\<rparr>
      in if kickoff_ok kickoff_response
         then (case kickoff_response of
                 None \<Rightarrow> r1\<lparr>raised := Some TypeError\<rparr>
               | Some d \<Rightarrow>
                  (case map_of d ''kickoff_id'' of
                     None \<Rightarrow> r1\<lparr>raised := Some KeyError\<rparr>
                   | Some kid \<Rightarrow> chat_poll_loop loads status kid 0 r1))
         else (case kickoff_response of
                 None \<Rightarrow> r1\<lparr>ui := ui r1 @ [FailedKickoffId]\<rparr>
               | Some d \<Rightarrow>
                   if d = [] then r1\<lparr>ui := ui r1 @ [FailedKickoffId]\<rparr>
                   else r1\<lparr>ui := ui r1 @ [FailedKickoffId, Received (JObj d)]\<rparr>))"

text \<open>The handler of the button "Clear Chat".\<close>

definition clear_chat :: "session \<Rightarrow> session" where
  "clear_chat s = s\<lparr>chat_messages := [], chat_id := JNull\<rparr>"

section \<open>Object store\<close>

text \<open>\<open>s3_uri.replace('s3://', '')\<close>: every occurrence is removed, scanning from the left.\<close>

fun remove_scheme :: "string \<Rightarrow> string" where
  "remove_scheme [] = []"
| "remove_scheme (c # cs) =
     (if take 5 (c # cs) = ''s3://'' then remove_scheme (drop 4 cs) else c # remove_scheme cs)"

text \<open>\<open>s.split('/', 1)\<close>: the part before the first slash, and the rest if there is a slash.\<close>

definition split_first :: "string \<Rightarrow> string \<times> string option" where
  "split_first s =
     (takeWhile (\<lambda>c. c \<noteq> CHR ''/'') s,
      if CHR ''/'' \<in> set s then Some (tl (dropWhile (\<lambda>c. c \<noteq> CHR ''/'') s)) else None)"

definition parse_s3_uri :: "string \<Rightarrow> string \<times> string" where
  "parse_s3_uri s3_uri =
     (case split_first (remove_scheme s3_uri) of
        (bucket, None) \<Rightarrow> (bucket, [])
      | (bucket, Some prefix) \<Rightarrow> (bucket, prefix))"

definition endswith_slash :: "string \<Rightarrow> bool" where
  "endswith_slash s = (s \<noteq> [] \<and> last s = CHR ''/'')"

text \<open>\<open>if prefix and not prefix.endswith('/'): prefix += '/'\<close>.\<close>

definition folder_prefix :: "string \<Rightarrow> string" where
  "folder_prefix prefix = (if prefix \<noteq> [] \<and> \<not> endswith_slash prefix then prefix @ ''/'' else prefix)"

text \<open>\<open>key.split('/')[-1]\<close>: what follows the last slash.\<close>

definition last_segment :: "string \<Rightarrow> string" where
  "last_segment key = rev (takeWhile (\<lambda>c. c \<noteq> CHR ''/'') (rev key))"

text \<open>Decimal digits of a natural number, as \<open>str\<close> prints an \<open>int\<close>.\<close>

definition digit_char :: "nat \<Rightarrow> char" where
  "digit_char d = ''0123456789'' ! d"

fun str_nat :: "nat \<Rightarrow> string" where
  "str_nat n = (if n < 10 then [digit_char n] else str_nat (n div 10) @ [digit_char (n mod 10)])"

declare str_nat.simps [simp del]

text \<open>
  \<open>f"{n / d:.1f}"\<close> for \<open>d\<close> a power of two. The quotient of a size below \<open>2 ^ 53\<close> by
  \<open>1024\<close> or \<open>1024 * 1024\<close> is exact in binary floating point (an S3 object has at most
  5 TiB), and the format rounds the exact value to one decimal, ties to the even digit:
  \<open>round_half_even (10 * n) d\<close> is the printed value in tenths.
\<close>

definition round_half_even :: "nat \<Rightarrow> nat \<Rightarrow> nat" where
  "round_half_even num den =
     (let q = num div den; r = num mod den
      in if 2 * r < den then q
         else if 2 * r > den then q + 1
         else if even q then q else q + 1)"

definition format_1f :: "nat \<Rightarrow> nat \<Rightarrow> string" where
  "format_1f n d =
     (let t = round_half_even (10 * n) d in str_nat (t div 10) @ ''.'' @ [digit_char (t mod 10)])"

definition format_size :: "nat \<Rightarrow> string" where
  "format_size file_size =
     (if file_size < 1024 then str_nat file_size @ '' B''
      else if file_size < 1024 * 1024 then format_1f file_size 1024 @ '' KB''
      else format_1f file_size (1024 * 1024) @ '' MB'')"

record s3_object =
  Key :: string
  Size :: nat

text \<open>A page of \<open>list_objects_v2\<close>: its \<open>Contents\<close>, if the page has that key.\<close>

type_synonym page = "s3_object list option"

record file_info =
  file_name :: string
  file_uri :: string
  file_size :: nat
  size_str :: string

text \<open>The entry appended for an object that is listed.\<close>

definition file_entry :: "string \<Rightarrow> s3_object \<Rightarrow> file_info" where
  "file_entry bucket obj =
     \<lparr> file_name = last_segment (Key obj),
       file_uri = ''s3://'' @ bucket @ ''/'' @ Key obj,
       file_size = Size obj,
       size_str = format_size (Size obj) \<rparr>"

text \<open>The body of the inner loop: one object of a page.\<close>

definition add_object :: "string \<Rightarrow> string \<Rightarrow> file_info list \<Rightarrow> s3_object \<Rightarrow> file_info list" where
  "add_object bucket prefix files obj =
     (let key = Key obj
      in if key \<noteq> prefix \<and> \<not> endswith_slash key
         then files @ [file_entry bucket obj]
         else files)"

text \<open>The body of the outer loop: one page.\<close>

definition add_page :: "string \<Rightarrow> string \<Rightarrow> file_info list \<Rightarrow> page \<Rightarrow> file_info list" where
  "add_page bucket prefix files pg =
     (case pg of None \<Rightarrow> files | Some contents \<Rightarrow> foldl (add_object bucket prefix) files contents)"

text \<open>
  \<open>paginate bucket prefix\<close> is the paginator of the S3 client: the pages it yields, or
  \<open>None\<close> when the client raises (no client, no such bucket, access denied), which the
  function turns into the empty listing.
\<close>

definition list_s3_files :: "(string \<Rightarrow> string \<Rightarrow> page list option) \<Rightarrow> string \<Rightarrow> file_info list" where
  "list_s3_files paginate s3_folder_uri =
     (case parse_s3_uri s3_folder_uri of
        (bucket, prefix0) \<Rightarrow>
          (let prefix = folder_prefix prefix0
           in case paginate bucket prefix of
                None \<Rightarrow> []
              | Some pages \<Rightarrow> foldl (add_page bucket prefix) [] pages))"

text \<open>
  The store behind the paginator is not part of the program. Its contract, as the listing
  relies on it: \<open>list_objects_v2\<close> with a \<open>Prefix\<close> and no delimiter yields every object of
  the bucket whose key starts with the prefix, in the bucket's key order, in pages of at
  most \<open>page_size\<close> objects; a listing without objects is one page without \<open>Contents\<close>.
\<close>

fun chunks :: "nat \<Rightarrow> 'a list \<Rightarrow> 'a list list" where
  "chunks n xs = (if n = 0 \<or> xs = [] then [] else take n xs # chunks n (drop n xs))"

declare chunks.simps [simp del]

definition starts_with :: "string \<Rightarrow> string \<Rightarrow> bool" where
  "starts_with prefix key = (take (length prefix) key = prefix)"

definition s3_paginate ::
  "nat \<Rightarrow> (string \<Rightarrow> s3_object list option) \<Rightarrow> string \<Rightarrow> string \<Rightarrow> page list option" where
  "s3_paginate page_size store bucket prefix =
     (case store bucket of
        None \<Rightarrow> None
      | Some objs \<Rightarrow>
          (let found = filter (\<lambda>obj. starts_with prefix (Key obj)) objs
           in if found = [] then Some [None] else Some (map Some (chunks page_size found))))"

section \<open>How the two poll loops read a status response\<close>

text \<open>
  The Process Documents tab reads the state with \<open>status_data.get('state', 'UNKNOWN')\<close>,
  after the test \<open>if status_data:\<close>.
\<close>

definition bulk_answered :: "http_result \<Rightarrow> bool" where
  "bulk_answered h = (case h of RequestException \<Rightarrow> False | Body d \<Rightarrow> d \<noteq> [])"

definition bulk_state :: "http_result \<Rightarrow> json" where
  "bulk_state h =
     (case h of RequestException \<Rightarrow> JNull | Body d \<Rightarrow> dict_get d ''state'' (JStr ''UNKNOWN''))"

definition bulk_pending :: "http_result \<Rightarrow> bool" where
  "bulk_pending h = (bulk_answered h \<and> bulk_state h \<noteq> JStr ''SUCCESS'')"

definition bulk_done :: "http_result \<Rightarrow> bool" where
  "bulk_done h = (bulk_answered h \<and> bulk_state h = JStr ''SUCCESS'')"

definition bulk_msgs :: "(json \<Rightarrow> nat \<Rightarrow> http_result) \<Rightarrow> json \<Rightarrow> nat \<Rightarrow> nat \<Rightarrow> ui_msg list" where
  "bulk_msgs status kid a k = map (\<lambda>j. CurrentState (bulk_state (status kid j))) [a..<k]"

text \<open>The Chat tab reads the state with \<open>status_response.get("state")\<close>.\<close>

definition chat_state :: "http_result \<Rightarrow> json" where
  "chat_state h = (case h of RequestException \<Rightarrow> JNull | Body d \<Rightarrow> dict_get d ''state'' JNull)"

definition chat_result :: "http_result \<Rightarrow> json" where
  "chat_result h = (case h of RequestException \<Rightarrow> JNull | Body d \<Rightarrow> dict_get d ''result'' JNull)"

text \<open>The first branch of the chat loop is taken: \<open>SUCCESS\<close> with a truthy \<open>result\<close>.\<close>

definition chat_ready :: "http_result \<Rightarrow> bool" where
  "chat_ready h = (bulk_answered h \<and> chat_state h = JStr ''SUCCESS'' \<and> truthy (chat_result h))"

text \<open>The second branch of the chat loop is taken: \<open>FAILURE\<close> or \<open>TIMEOUT\<close>.\<close>

definition chat_failed :: "http_result \<Rightarrow> bool" where
  "chat_failed h =
     (bulk_answered h \<and> (chat_state h = JStr ''FAILURE'' \<or> chat_state h = JStr ''TIMEOUT''))"

definition api_msgs :: "(json \<Rightarrow> nat \<Rightarrow> http_result) \<Rightarrow> json \<Rightarrow> nat \<Rightarrow> nat \<Rightarrow> ui_msg list" where
  "api_msgs status kid i k = concat (map (\<lambda>j. fst (api_request (status kid j))) [i..<k])"

text \<open>
  The states of the job protocol: a status body that reports the state \<open>st\<close>, and the
  states from which a job does not move.
\<close>

definition status_body :: "string \<Rightarrow> http_result" where
  "status_body st = Body [(''state'', JStr st)]"

definition terminal_state :: "json \<Rightarrow> bool" where
  "terminal_state v = (v = JStr ''SUCCESS'' \<or> v = JStr ''FAILURE'' \<or> v = JStr ''TIMEOUT'')"

section \<open>Notions used to state the properties\<close>

text \<open>The fields of the session that do not belong to the chat.\<close>

definition same_frame :: "session \<Rightarrow> session \<Rightarrow> bool" where
  "same_frame s s' =
     (processing s' = processing s \<and> kickoff_id s' = kickoff_id s \<and>
      upload_complete s' = upload_complete s \<and> should_clear_input s' = should_clear_input s \<and>
      submit_clicked s' = submit_clicked s)"

text \<open>
  What can be observed of the chat in a run: the transcript, the conversation id, the
  messages shown, the payloads posted, the ids polled and the escaped exception.
\<close>

definition chat_view ::
  "run \<Rightarrow> message list \<times> json \<times> ui_msg list \<times> json list \<times> json list \<times> py_exn option" where
  "chat_view r =
     (chat_messages (sess r), chat_id (sess r), ui r, posted r, map fst (calls r), raised r)"

text \<open>The objects that \<open>list_s3_files\<close> keeps, among those of a bucket.\<close>

definition listed :: "string \<Rightarrow> s3_object \<Rightarrow> bool" where
  "listed prefix obj =
     (starts_with prefix (Key obj) \<and> Key obj \<noteq> prefix \<and> \<not> endswith_slash (Key obj))"

section \<open>Scenarios\<close>

text \<open>A session in which the bulk job \<open>k1\<close> has been kicked off and is being processed.\<close>

definition busy_session :: session where
  "busy_session = init_session\<lparr>processing := True, kickoff_id := JStr ''k1''\<rparr>"

text \<open>The kickoff endpoint answers with the job id \<open>k1\<close>.\<close>

definition kick_k1 :: "json \<Rightarrow> http_result" where
  "kick_k1 payload = Body [(''kickoff_id'', JStr ''k1'')]"

text \<open>The status endpoint reports \<open>RUNNING\<close> five times, then \<open>SUCCESS\<close>.\<close>

definition running_5_then_success :: "json \<Rightarrow> nat \<Rightarrow> http_result" where
  "running_5_then_success kid n = (if n < 5 then status_body ''RUNNING'' else status_body ''SUCCESS'')"

text \<open>The status endpoint reports \<open>SUCCESS\<close> with the given \<open>result\<close>.\<close>

definition success_with :: "json \<Rightarrow> http_result" where
  "success_with res = Body [(''state'', JStr ''SUCCESS''), (''result'', res)]"

text \<open>
  \<open>json.loads\<close> on the result strings of the scenarios: an empty object, an array, a reply
  with a conversation id; every other string of the scenarios is not JSON.
\<close>

definition loads_example :: "string \<Rightarrow> json option" where
  "loads_example s =
     (if s = ''{}'' then Some (JObj [])
      else if s = ''[1]'' then Some (JArr [JNum 1])
      else if s = ''{\"response\": \"Hi there\", \"id\": \"c1\"}''
      then Some (JObj [(''response'', JStr ''Hi there''), (''id'', JStr ''c1'')])
      else None)"

text \<open>
  The bucket of the listing scenario, in key order: the marker of the folder, a file in
  it, and a file under a nested prefix.
\<close>

definition docs_store :: "string \<Rightarrow> s3_object list option" where
  "docs_store bucket =
     (if bucket = ''bucket''
      then Some [\<lparr>Key = ''docs/'', Size = 0\<rparr>,
                 \<lparr>Key = ''docs/a.txt'', Size = 500\<rparr>,
                 \<lparr>Key = ''docs/sub/b.txt'', Size = 2048\<rparr>]
      else None)"

text \<open>
  The result string of the first reply of the conversation scenario, and the session after
  the turn "Hello" that received it.
\<close>

definition hi_result :: string where
  "hi_result = ''{\"response\": \"Hi there\", \"id\": \"c1\"}''"

definition after_hello :: session where
  "after_hello = init_session
     \<lparr>chat_messages := [\<lparr>role = User, content = JStr ''Hello''\<rparr>,
                        \<lparr>role = Assistant, content = JStr ''Hi there''\<rparr>],
      chat_id := JStr ''c1''\<rparr>"


text \<open>What the chat shows of a kickoff response that it rejects.\<close>

definition received_msgs :: "dict option \<Rightarrow> ui_msg list" where
  "received_msgs resp =
     (case resp of None \<Rightarrow> [] | Some d \<Rightarrow> if d = [] then [] else [Received (JObj d)])"

section \<open>The chat poll loop\<close>

lemma api_msgs_same [simp]: "api_msgs status kid i i = []"
  by (simp add: api_msgs_def)

lemma api_msgs_Suc:
  "i \<le> k \<Longrightarrow> api_msgs status kid i (Suc k) = api_msgs status kid i k @ fst (api_request (status kid k))"
  by (simp add: api_msgs_def)

lemmas chat_reads = chat_ready_def chat_failed_def chat_state_def chat_result_def
  bulk_answered_def api_request_def resp_truthy_def

lemma chat_poll_body_continue:
  assumes "\<not> chat_ready h" "\<not> chat_failed h" "Suc i \<noteq> max_retries"
  shows "chat_poll_body loads h kid i r =
     (False, r\<lparr>ui := ui r @ fst (api_request h), calls := calls r @ [(kid, processing (sess r))]\<rparr>)"
  using assms
  by (cases h) (auto simp: chat_poll_body_def chat_reads Let_def max_retries_def)

lemma chat_poll_body_last:
  assumes "\<not> chat_ready h" "\<not> chat_failed h" "Suc i = max_retries"
  shows "chat_poll_body loads h kid i r =
     (False, r\<lparr>ui := ui r @ fst (api_request h) @ [TimedOutWaiting],
               calls := calls r @ [(kid, processing (sess r))]\<rparr>)"
  using assms
  by (cases h) (auto simp: chat_poll_body_def chat_reads Let_def max_retries_def)

lemma chat_poll_body_failed:
  assumes "chat_failed h"
  shows "chat_poll_body loads h kid i r =
     (True, r\<lparr>ui := ui r @ [RequestFailedState (chat_state h)],
              calls := calls r @ [(kid, processing (sess r))]\<rparr>)"
  using assms
  by (cases h) (auto simp: chat_poll_body_def chat_reads Let_def)

lemma chat_poll_body_ready:
  assumes "chat_ready h"
  shows "chat_poll_body loads h kid i r =
     (True, on_success loads (chat_result h)
              (r\<lparr>ui := ui r, calls := calls r @ [(kid, processing (sess r))]\<rparr>))"
  using assms
  by (cases h) (auto simp: chat_poll_body_def chat_reads Let_def)

lemma chat_poll_skip:
  assumes "i \<le> k" "k < max_retries"
    and "\<forall>j. i \<le> j \<and> j < k \<longrightarrow> \<not> chat_ready (status kid j) \<and> \<not> chat_failed (status kid j)"
  shows "chat_poll_loop loads status kid i r =
         chat_poll_loop loads status kid k
           (r\<lparr>ui := ui r @ api_msgs status kid i k,
              calls := calls r @ replicate (k - i) (kid, processing (sess r))\<rparr>)"
  using assms
proof (induction k rule: dec_induct)
  case base
  show ?case by simp
next
  case (step n)
  let ?rn = "r\<lparr>ui := ui r @ api_msgs status kid i n,
              calls := calls r @ replicate (n - i) (kid, processing (sess r))\<rparr>"
  have n: "n < max_retries" "Suc n \<noteq> max_retries" using step.prems by auto
  have c: "\<not> chat_ready (status kid n)" "\<not> chat_failed (status kid n)"
    using step.prems step.hyps by auto
  have "chat_poll_loop loads status kid i r = chat_poll_loop loads status kid n ?rn"
    using step by auto
  also have "\<dots> = chat_poll_loop loads status kid (Suc n)
       (?rn\<lparr>ui := ui ?rn @ fst (api_request (status kid n)),
            calls := calls ?rn @ [(kid, processing (sess ?rn))]\<rparr>)"
    by (subst chat_poll_loop.simps [of _ _ _ n]) (simp add: chat_poll_body_continue [OF c n(2)] n(1))
  also have "(?rn\<lparr>ui := ui ?rn @ fst (api_request (status kid n)),
                  calls := calls ?rn @ [(kid, processing (sess ?rn))]\<rparr>)
         = r\<lparr>ui := ui r @ api_msgs status kid i (Suc n),
              calls := calls r @ replicate (Suc n - i) (kid, processing (sess r))\<rparr>"
    using step.hyps by (simp add: api_msgs_Suc Suc_diff_le replicate_append_same)
  finally show ?case .
qed

lemma chat_poll_exhaust:
  assumes "\<forall>j < max_retries. \<not> chat_ready (status kid j) \<and> \<not> chat_failed (status kid j)"
  shows "chat_poll_loop loads status kid 0 r =
           r\<lparr>ui := ui r @ api_msgs status kid 0 max_retries @ [TimedOutWaiting],
              calls := calls r @ replicate max_retries (kid, processing (sess r))\<rparr>"
proof -
  obtain k where k: "Suc k = max_retries" by (simp add: max_retries_def)
  let ?rk = "r\<lparr>ui := ui r @ api_msgs status kid 0 k,
              calls := calls r @ replicate k (kid, processing (sess r))\<rparr>"
  have kl: "k < max_retries" using k by simp
  have c: "\<not> chat_ready (status kid k)" "\<not> chat_failed (status kid k)"
    using assms kl by auto
  have "chat_poll_loop loads status kid 0 r = chat_poll_loop loads status kid k ?rk"
    using chat_poll_skip [of 0 k status kid loads r] assms kl by auto
  also have "\<dots> = chat_poll_loop loads status kid (Suc k)
       (?rk\<lparr>ui := ui ?rk @ fst (api_request (status kid k)) @ [TimedOutWaiting],
            calls := calls ?rk @ [(kid, processing (sess ?rk))]\<rparr>)"
    by (subst chat_poll_loop.simps [of _ _ _ k]) (simp add: chat_poll_body_last [OF c k] kl)
  also have "\<dots> = ?rk\<lparr>ui := ui ?rk @ fst (api_request (status kid k)) @ [TimedOutWaiting],
            calls := calls ?rk @ [(kid, processing (sess ?rk))]\<rparr>"
    by (subst chat_poll_loop.simps [of _ _ _ "Suc k"]) (simp add: k)
  also have "\<dots> = r\<lparr>ui := ui r @ api_msgs status kid 0 (Suc k) @ [TimedOutWaiting],
              calls := calls r @ replicate (Suc k) (kid, processing (sess r))\<rparr>"
    by (simp add: api_msgs_Suc replicate_append_same)
  finally show ?thesis by (simp only: k)
qed

lemma chat_poll_failed_at:
  assumes "\<forall>j < k. \<not> chat_ready (status kid j) \<and> \<not> chat_failed (status kid j)"
    and "chat_failed (status kid k)" "k < max_retries"
  shows "chat_poll_loop loads status kid 0 r =
           r\<lparr>ui := ui r @ api_msgs status kid 0 k @ [RequestFailedState (chat_state (status kid k))],
              calls := calls r @ replicate (Suc k) (kid, processing (sess r))\<rparr>"
proof -
  let ?rk = "r\<lparr>ui := ui r @ api_msgs status kid 0 k,
              calls := calls r @ replicate k (kid, processing (sess r))\<rparr>"
  have "chat_poll_loop loads status kid 0 r = chat_poll_loop loads status kid k ?rk"
    using chat_poll_skip [of 0 k status kid loads r] assms by auto
  also have "\<dots> = ?rk\<lparr>ui := ui ?rk @ [RequestFailedState (chat_state (status kid k))],
            calls := calls ?rk @ [(kid, processing (sess ?rk))]\<rparr>"
    by (subst chat_poll_loop.simps [of _ _ _ k])
       (simp add: chat_poll_body_failed [OF assms(2)] assms(3))
  also have "\<dots> = r\<lparr>ui := ui r @ api_msgs status kid 0 k @ [RequestFailedState (chat_state (status kid k))],
              calls := calls r @ replicate (Suc k) (kid, processing (sess r))\<rparr>"
    by (simp add: replicate_append_same)
  finally show ?thesis .
qed


lemma same_frame_refl [simp]: "same_frame s s"
  by (simp add: same_frame_def)

lemma same_frame_trans: "same_frame a b \<Longrightarrow> same_frame b c \<Longrightarrow> same_frame a c"
  by (simp add: same_frame_def)

lemma on_success_frame:
  "same_frame (sess r) (sess (on_success loads res r))"
  "calls (on_success loads res r) = calls r"
  "posted (on_success loads res r) = posted r"
  by (auto simp: on_success_def same_frame_def Let_def split: json.splits option.splits)

lemma on_success_chat_id:
  "chat_id (sess (on_success loads res r)) = chat_id (sess r) \<or>
   (\<exists>s rd. res = JStr s \<and> loads s = Some (JObj rd) \<and>
            map_of rd ''id'' = Some (chat_id (sess (on_success loads res r))) \<and>
            truthy (chat_id (sess (on_success loads res r))))"
  by (auto simp: on_success_def Let_def dict_get_def split: json.splits option.splits)

lemma on_success_messages:
  "chat_messages (sess (on_success loads res r)) = chat_messages (sess r) \<or>
   (\<exists>c. chat_messages (sess (on_success loads res r)) =
          chat_messages (sess r) @ [\<lparr>role = Assistant, content = c\<rparr>])"
  by (auto simp: on_success_def Let_def split: json.splits option.splits)

lemma chat_poll_body_cases:
  obtains (ready) "chat_ready h"
      "chat_poll_body loads h kid i r =
         (True, on_success loads (chat_result h)
                  (r\<lparr>ui := ui r, calls := calls r @ [(kid, processing (sess r))]\<rparr>))"
  | (failed) "chat_failed h"
      "chat_poll_body loads h kid i r =
         (True, r\<lparr>ui := ui r @ [RequestFailedState (chat_state h)],
                  calls := calls r @ [(kid, processing (sess r))]\<rparr>)"
  | (last) "\<not> chat_ready h" "\<not> chat_failed h" "Suc i = max_retries"
      "chat_poll_body loads h kid i r =
         (False, r\<lparr>ui := ui r @ fst (api_request h) @ [TimedOutWaiting],
                   calls := calls r @ [(kid, processing (sess r))]\<rparr>)"
  | (continue) "\<not> chat_ready h" "\<not> chat_failed h" "Suc i \<noteq> max_retries"
      "chat_poll_body loads h kid i r =
         (False, r\<lparr>ui := ui r @ fst (api_request h),
                   calls := calls r @ [(kid, processing (sess r))]\<rparr>)"
  using chat_poll_body_ready chat_poll_body_failed chat_poll_body_last chat_poll_body_continue
  by blast

lemma chat_poll_body_frame:
  "same_frame (sess r) (sess (snd (chat_poll_body loads h kid i r)))"
  "calls (snd (chat_poll_body loads h kid i r)) = calls r @ [(kid, processing (sess r))]"
  "posted (snd (chat_poll_body loads h kid i r)) = posted r"
proof -
  show "same_frame (sess r) (sess (snd (chat_poll_body loads h kid i r)))"
    by (cases rule: chat_poll_body_cases [of h loads kid i r])
       (use on_success_frame(1) [of "r\<lparr>ui := ui r, calls := calls r @ [(kid, processing (sess r))]\<rparr>"] in simp_all)
  show "calls (snd (chat_poll_body loads h kid i r)) = calls r @ [(kid, processing (sess r))]"
    by (cases rule: chat_poll_body_cases [of h loads kid i r]) (simp_all add: on_success_frame)
  show "posted (snd (chat_poll_body loads h kid i r)) = posted r"
    by (cases rule: chat_poll_body_cases [of h loads kid i r]) (simp_all add: on_success_frame)
qed

lemma chat_poll_body_chat_id:
  "chat_id (sess (snd (chat_poll_body loads h kid i r))) = chat_id (sess r) \<or>
   (\<exists>s rd. chat_ready h \<and> chat_result h = JStr s \<and> loads s = Some (JObj rd) \<and>
            map_of rd ''id'' = Some (chat_id (sess (snd (chat_poll_body loads h kid i r)))) \<and>
            truthy (chat_id (sess (snd (chat_poll_body loads h kid i r)))))"
proof (cases rule: chat_poll_body_cases [of h loads kid i r])
  case ready
  then show ?thesis
    using on_success_chat_id [of loads "chat_result h"
            "r\<lparr>ui := ui r, calls := calls r @ [(kid, processing (sess r))]\<rparr>"]
    by auto
qed simp_all

lemma chat_poll_body_messages:
  "chat_messages (sess (snd (chat_poll_body loads h kid i r))) = chat_messages (sess r) \<or>
   (fst (chat_poll_body loads h kid i r) \<and>
    (\<exists>c. chat_messages (sess (snd (chat_poll_body loads h kid i r))) =
          chat_messages (sess r) @ [\<lparr>role = Assistant, content = c\<rparr>]))"
proof (cases rule: chat_poll_body_cases [of h loads kid i r])
  case ready
  then show ?thesis
    using on_success_messages [of loads "chat_result h"
            "r\<lparr>ui := ui r, calls := calls r @ [(kid, processing (sess r))]\<rparr>"]
    by auto
qed simp_all

lemma chat_poll_loop_stop:
  "\<not> i < max_retries \<Longrightarrow> chat_poll_loop loads status kid i r = r"
  by (subst chat_poll_loop.simps) simp

lemma chat_poll_loop_break:
  "i < max_retries \<Longrightarrow> fst (chat_poll_body loads (status kid i) kid i r) \<Longrightarrow>
   chat_poll_loop loads status kid i r = snd (chat_poll_body loads (status kid i) kid i r)"
  by (subst chat_poll_loop.simps) simp

lemma chat_poll_loop_next:
  "i < max_retries \<Longrightarrow> \<not> fst (chat_poll_body loads (status kid i) kid i r) \<Longrightarrow>
   chat_poll_loop loads status kid i r =
   chat_poll_loop loads status kid (Suc i) (snd (chat_poll_body loads (status kid i) kid i r))"
  by (subst chat_poll_loop.simps) simp

lemma chat_poll_loop_frame:
  "same_frame (sess r) (sess (chat_poll_loop loads status kid i r)) \<and>
   posted (chat_poll_loop loads status kid i r) = posted r"
proof (induction loads status kid i r rule: chat_poll_loop.induct)
  case (1 loads status kid i r)
  let ?step = "chat_poll_body loads (status kid i) kid i r"
  consider (stop) "\<not> i < max_retries" | (break) "i < max_retries" "fst ?step"
    | (go) "i < max_retries" "\<not> fst ?step" by blast
  then show ?case
  proof cases
    case stop
    then show ?thesis by (simp add: chat_poll_loop_stop)
  next
    case break
    then show ?thesis by (simp add: chat_poll_loop_break chat_poll_body_frame)
  next
    case go
    have "same_frame (sess (snd ?step)) (sess (chat_poll_loop loads status kid (Suc i) (snd ?step))) \<and>
          posted (chat_poll_loop loads status kid (Suc i) (snd ?step)) = posted (snd ?step)"
      using 1 [OF go(1) refl go(2)] .
    moreover have "same_frame (sess r) (sess (snd ?step))" "posted (snd ?step) = posted r"
      by (rule chat_poll_body_frame)+
    ultimately show ?thesis
      using go by (simp add: chat_poll_loop_next) (metis same_frame_trans)
  qed
qed

lemma chat_poll_loop_calls:
  "\<exists>n. calls (chat_poll_loop loads status kid i r) = calls r @ replicate n (kid, processing (sess r)) \<and>
       n \<le> max_retries - i \<and> (i < max_retries \<longrightarrow> 0 < n)"
proof (induction loads status kid i r rule: chat_poll_loop.induct)
  case (1 loads status kid i r)
  let ?step = "chat_poll_body loads (status kid i) kid i r"
  consider (stop) "\<not> i < max_retries" | (break) "i < max_retries" "fst ?step"
    | (go) "i < max_retries" "\<not> fst ?step" by blast
  then show ?case
  proof cases
    case stop
    then show ?thesis by (simp add: chat_poll_loop_stop)
  next
    case break
    then have "calls (chat_poll_loop loads status kid i r) =
               calls r @ replicate 1 (kid, processing (sess r))"
      by (simp add: chat_poll_loop_break chat_poll_body_frame)
    moreover have "(1::nat) \<le> max_retries - i" using break(1) by simp
    ultimately show ?thesis by blast
  next
    case go
    obtain n where n: "calls (chat_poll_loop loads status kid (Suc i) (snd ?step)) =
         calls (snd ?step) @ replicate n (kid, processing (sess (snd ?step)))"
        "n \<le> max_retries - Suc i"
      using 1 [OF go(1) refl go(2)] by blast
    have p: "processing (sess (snd ?step)) = processing (sess r)"
      using chat_poll_body_frame(1) [of r loads "status kid i" kid i] by (simp add: same_frame_def)
    have "calls (chat_poll_loop loads status kid i r) =
            calls r @ replicate (Suc n) (kid, processing (sess r))"
      using go n(1) p by (simp add: chat_poll_loop_next chat_poll_body_frame)
    moreover have "Suc n \<le> max_retries - i" using n(2) go(1) by simp
    ultimately show ?thesis by blast
  qed
qed

lemma chat_poll_loop_chat_id:
  "chat_id (sess (chat_poll_loop loads status kid i r)) = chat_id (sess r) \<or>
   (\<exists>n s rd. n < max_retries \<and> chat_ready (status kid n) \<and> chat_result (status kid n) = JStr s \<and>
        loads s = Some (JObj rd) \<and>
        map_of rd ''id'' = Some (chat_id (sess (chat_poll_loop loads status kid i r))) \<and>
        truthy (chat_id (sess (chat_poll_loop loads status kid i r))))"
proof (induction loads status kid i r rule: chat_poll_loop.induct)
  case (1 loads status kid i r)
  let ?step = "chat_poll_body loads (status kid i) kid i r"
  consider (stop) "\<not> i < max_retries" | (break) "i < max_retries" "fst ?step"
    | (go) "i < max_retries" "\<not> fst ?step" by blast
  then show ?case
  proof cases
    case stop
    then show ?thesis by (simp add: chat_poll_loop_stop)
  next
    case break
    then show ?thesis
      using chat_poll_body_chat_id [of loads "status kid i" kid i r]
      by (auto simp: chat_poll_loop_break)
  next
    case go
    have same: "chat_id (sess (snd ?step)) = chat_id (sess r)"
      using go(2) by (cases rule: chat_poll_body_cases [of "status kid i" loads kid i r]) simp_all
    show ?thesis
      using 1 [OF go(1) refl go(2)] go same by (simp add: chat_poll_loop_next)
  qed
qed

lemma chat_poll_loop_messages:
  "chat_messages (sess (chat_poll_loop loads status kid i r)) = chat_messages (sess r) \<or>
   (\<exists>c. chat_messages (sess (chat_poll_loop loads status kid i r)) =
          chat_messages (sess r) @ [\<lparr>role = Assistant, content = c\<rparr>])"
proof (induction loads status kid i r rule: chat_poll_loop.induct)
  case (1 loads status kid i r)
  let ?step = "chat_poll_body loads (status kid i) kid i r"
  consider (stop) "\<not> i < max_retries" | (break) "i < max_retries" "fst ?step"
    | (go) "i < max_retries" "\<not> fst ?step" by blast
  then show ?case
  proof cases
    case stop
    then show ?thesis by (simp add: chat_poll_loop_stop)
  next
    case break
    then show ?thesis
      using chat_poll_body_messages [of loads "status kid i" kid i r]
      by (auto simp: chat_poll_loop_break)
  next
    case go
    have same: "chat_messages (sess (snd ?step)) = chat_messages (sess r)"
      using go(2) chat_poll_body_messages [of loads "status kid i" kid i r] by auto
    show ?thesis
      using 1 [OF go(1) refl go(2)] go same by (simp add: chat_poll_loop_next)
  qed
qed

section \<open>The auto-poll loop\<close>

lemma bulk_msgs_same [simp]: "bulk_msgs status kid a a = []"
  by (simp add: bulk_msgs_def)

lemma bulk_msgs_Suc:
  "a \<le> k \<Longrightarrow> bulk_msgs status kid a (Suc k) =
     bulk_msgs status kid a k @ [CurrentState (bulk_state (status kid k))]"
  by (simp add: bulk_msgs_def)

lemmas bulk_reads = bulk_pending_def bulk_done_def bulk_answered_def bulk_state_def api_request_def

lemma auto_poll_loop_pending:
  assumes "bulk_pending (status (kickoff_id (sess r)) n)" "n < max_attempts"
  shows "auto_poll_loop status False n r =
         auto_poll_loop status False (Suc n)
           (r\<lparr>ui := ui r @ [CurrentState (bulk_state (status (kickoff_id (sess r)) n))],
              calls := calls r @ [(kickoff_id (sess r), processing (sess r))]\<rparr>)"
  using assms
  by (subst auto_poll_loop.simps)
     (auto simp: bulk_reads Let_def split: http_result.splits
           intro!: arg_cong [where f = "auto_poll_loop status False (Suc n)"])

lemma auto_poll_loop_done:
  assumes "bulk_done (status (kickoff_id (sess r)) n)" "n < max_attempts"
  shows "auto_poll_loop status False n r =
         (True, n, r\<lparr>ui := ui r @ [CurrentState (JStr ''SUCCESS''), Done],
              calls := calls r @ [(kickoff_id (sess r), processing (sess r))],
              sess := (sess r)\<lparr>processing := False\<rparr>\<rparr>)"
  using assms
  by (subst auto_poll_loop.simps) (auto simp: bulk_reads Let_def split: http_result.splits)

lemma auto_poll_loop_unanswered:
  assumes "\<not> bulk_answered (status (kickoff_id (sess r)) n)" "n < max_attempts"
  shows "auto_poll_loop status False n r =
         (False, n, r\<lparr>ui := ui r @ fst (api_request (status (kickoff_id (sess r)) n)) @ [FailedRetrieveStatus],
              calls := calls r @ [(kickoff_id (sess r), processing (sess r))]\<rparr>)"
  using assms
  by (subst auto_poll_loop.simps) (auto simp: bulk_reads Let_def split: http_result.splits)

lemma auto_poll_loop_end:
  "\<not> n < max_attempts \<Longrightarrow> auto_poll_loop status False n r = (False, n, r)"
  by (subst auto_poll_loop.simps) simp


lemma auto_poll_loop_skip:
  assumes "a \<le> k" "k \<le> max_attempts"
    and "\<forall>j. a \<le> j \<and> j < k \<longrightarrow> bulk_pending (status (kickoff_id (sess r)) j)"
  shows "auto_poll_loop status False a r =
         auto_poll_loop status False k
           (r\<lparr>ui := ui r @ bulk_msgs status (kickoff_id (sess r)) a k,
              calls := calls r @ replicate (k - a) (kickoff_id (sess r), processing (sess r))\<rparr>)"
  using assms
proof (induction k rule: dec_induct)
  case base
  show ?case by simp
next
  case (step n)
  let ?kid = "kickoff_id (sess r)"
  let ?rn = "r\<lparr>ui := ui r @ bulk_msgs status ?kid a n,
              calls := calls r @ replicate (n - a) (?kid, processing (sess r))\<rparr>"
  have n: "n < max_attempts" using step.prems by auto
  have c: "bulk_pending (status (kickoff_id (sess ?rn)) n)"
    using step.prems step.hyps by auto
  have "auto_poll_loop status False a r = auto_poll_loop status False n ?rn"
    using step by auto
  also have "\<dots> = auto_poll_loop status False (Suc n)
       (?rn\<lparr>ui := ui ?rn @ [CurrentState (bulk_state (status (kickoff_id (sess ?rn)) n))],
            calls := calls ?rn @ [(kickoff_id (sess ?rn), processing (sess ?rn))]\<rparr>)"
    using c n by (rule auto_poll_loop_pending)
  also have "(?rn\<lparr>ui := ui ?rn @ [CurrentState (bulk_state (status (kickoff_id (sess ?rn)) n))],
            calls := calls ?rn @ [(kickoff_id (sess ?rn), processing (sess ?rn))]\<rparr>)
         = r\<lparr>ui := ui r @ bulk_msgs status ?kid a (Suc n),
              calls := calls r @ replicate (Suc n - a) (?kid, processing (sess r))\<rparr>"
    using step.hyps by (simp add: bulk_msgs_Suc Suc_diff_le replicate_append_same)
  finally show ?case .
qed

lemma auto_poll_exhaust:
  assumes "\<forall>j < max_attempts. bulk_pending (status (kickoff_id (sess r)) j)"
  shows "auto_poll status r =
           r\<lparr>ui := ui r @ bulk_msgs status (kickoff_id (sess r)) 0 max_attempts @
                   [TakingLonger, ManualRefreshHint],
              calls := calls r @ replicate max_attempts (kickoff_id (sess r), processing (sess r))\<rparr>"
  using auto_poll_loop_skip [of 0 max_attempts status r] assms
  by (simp add: auto_poll_def auto_poll_loop_end)

lemma auto_poll_success_at:
  assumes "\<forall>j < k. bulk_pending (status (kickoff_id (sess r)) j)"
    and "bulk_done (status (kickoff_id (sess r)) k)" "k < max_attempts"
  shows "auto_poll status r =
           r\<lparr>ui := ui r @ bulk_msgs status (kickoff_id (sess r)) 0 k @
                   [CurrentState (JStr ''SUCCESS''), Done],
              calls := calls r @ replicate (Suc k) (kickoff_id (sess r), processing (sess r)),
              sess := (sess r)\<lparr>processing := False\<rparr>\<rparr>"
proof -
  let ?kid = "kickoff_id (sess r)"
  let ?rk = "r\<lparr>ui := ui r @ bulk_msgs status ?kid 0 k,
              calls := calls r @ replicate k (?kid, processing (sess r))\<rparr>"
  have "auto_poll_loop status False 0 r = auto_poll_loop status False k ?rk"
    using auto_poll_loop_skip [of 0 k status r] assms by simp
  moreover have "bulk_done (status (kickoff_id (sess ?rk)) k)" using assms by simp
  ultimately show ?thesis
    using assms(3) by (simp add: auto_poll_def auto_poll_loop_done replicate_append_same)
qed

lemma auto_poll_abort_at:
  assumes "\<forall>j < k. bulk_pending (status (kickoff_id (sess r)) j)"
    and "\<not> bulk_answered (status (kickoff_id (sess r)) k)" "k < max_attempts"
  shows "auto_poll status r =
           r\<lparr>ui := ui r @ bulk_msgs status (kickoff_id (sess r)) 0 k @
                   fst (api_request (status (kickoff_id (sess r)) k)) @ [FailedRetrieveStatus],
              calls := calls r @ replicate (Suc k) (kickoff_id (sess r), processing (sess r))\<rparr>"
proof -
  let ?kid = "kickoff_id (sess r)"
  let ?rk = "r\<lparr>ui := ui r @ bulk_msgs status ?kid 0 k,
              calls := calls r @ replicate k (?kid, processing (sess r))\<rparr>"
  have "auto_poll_loop status False 0 r = auto_poll_loop status False k ?rk"
    using auto_poll_loop_skip [of 0 k status r] assms by simp
  moreover have "\<not> bulk_answered (status (kickoff_id (sess ?rk)) k)" using assms by simp
  ultimately show ?thesis
    using assms(3) by (simp add: auto_poll_def auto_poll_loop_unanswered replicate_append_same)
qed



section \<open>A chat turn\<close>

lemma kickoff_ok_iff:
  "kickoff_ok resp \<longleftrightarrow> (\<exists>d kid. resp = Some d \<and> map_of d ''kickoff_id'' = Some kid)"
proof (cases resp)
  case None
  then show ?thesis by (simp add: kickoff_ok_def)
next
  case (Some d)
  have "dict_has d ''kickoff_id'' \<longleftrightarrow> (\<exists>kid. map_of d ''kickoff_id'' = Some kid)"
    using map_of_eq_None_iff [of d "''kickoff_id''"] by (auto simp: dict_has_def)
  moreover have "dict_has d ''kickoff_id'' \<Longrightarrow> d \<noteq> []"
    by (auto simp: dict_has_def)
  ultimately show ?thesis using Some by (auto simp: kickoff_ok_def)
qed

lemma chat_input_data_chat_id:
  "chat_id s' = chat_id s \<Longrightarrow> chat_input_data s' msg = chat_input_data s msg"
  by (simp add: chat_input_data_def)

text \<open>The session once the user's message is recorded, before the kickoff request.\<close>

lemma chat_input_data_upd [simp]:
  "chat_input_data (s\<lparr>chat_messages := m\<rparr>) msg = chat_input_data s msg"
  "chat_input_data (s\<lparr>submit_clicked := b\<rparr>) msg = chat_input_data s msg"
  by (simp_all add: chat_input_data_def)

lemma chat_turn_failed:
  assumes "\<not> kickoff_ok (snd (api_request (kick (chat_input_data (sess r) msg))))"
  shows "chat_turn loads kick status msg r =
           r\<lparr>sess := (sess r)\<lparr>chat_messages := chat_messages (sess r) @
                                   [\<lparr>role = User, content = JStr msg\<rparr>],
                                submit_clicked := False\<rparr>,
             ui := ui r @ fst (api_request (kick (chat_input_data (sess r) msg))) @
                   FailedKickoffId #
                   received_msgs (snd (api_request (kick (chat_input_data (sess r) msg)))),
             posted := posted r @ [chat_input_data (sess r) msg]\<rparr>"
  using assms
  by (cases "snd (api_request (kick (chat_input_data (sess r) msg)))")
     (simp_all add: chat_turn_def Let_def received_msgs_def)

lemma chat_turn_started:
  assumes "snd (api_request (kick (chat_input_data (sess r) msg))) = Some d"
    and "map_of d ''kickoff_id'' = Some kid"
  shows "chat_turn loads kick status msg r =
         chat_poll_loop loads status kid 0
           (r\<lparr>sess := (sess r)\<lparr>chat_messages := chat_messages (sess r) @
                                   [\<lparr>role = User, content = JStr msg\<rparr>],
                                submit_clicked := False\<rparr>,
              ui := ui r @ fst (api_request (kick (chat_input_data (sess r) msg))),
              posted := posted r @ [chat_input_data (sess r) msg]\<rparr>)"
proof -
  have ok: "kickoff_ok (Some d)" using assms(2) kickoff_ok_iff by blast
  have "chat_turn loads kick status msg r =
        chat_poll_loop loads status kid 0
          (r\<lparr>sess := (sess r)\<lparr>submit_clicked := False\<rparr>
                       \<lparr>chat_messages := chat_messages ((sess r)\<lparr>submit_clicked := False\<rparr>) @
                                   [\<lparr>role = User, content = JStr msg\<rparr>]\<rparr>,
             ui := ui r @ fst (api_request (kick (chat_input_data (sess r) msg))),
             posted := posted r @ [chat_input_data (sess r) msg]\<rparr>)"
    using assms ok by (simp add: chat_turn_def Let_def)
  also have "(r\<lparr>sess := (sess r)\<lparr>submit_clicked := False\<rparr>
                       \<lparr>chat_messages := chat_messages ((sess r)\<lparr>submit_clicked := False\<rparr>) @
                                   [\<lparr>role = User, content = JStr msg\<rparr>]\<rparr>,
             ui := ui r @ fst (api_request (kick (chat_input_data (sess r) msg))),
             posted := posted r @ [chat_input_data (sess r) msg]\<rparr>)
        = r\<lparr>sess := (sess r)\<lparr>chat_messages := chat_messages (sess r) @
                                   [\<lparr>role = User, content = JStr msg\<rparr>],
                                submit_clicked := False\<rparr>,
              ui := ui r @ fst (api_request (kick (chat_input_data (sess r) msg))),
              posted := posted r @ [chat_input_data (sess r) msg]\<rparr>"
    by simp
  finally show ?thesis .
qed

lemma chat_turn_cases:
  obtains (failed) "\<not> kickoff_ok (snd (api_request (kick (chat_input_data (sess r) msg))))"
  | (started) d kid where "snd (api_request (kick (chat_input_data (sess r) msg))) = Some d"
      "map_of d ''kickoff_id'' = Some kid"
  using kickoff_ok_iff by blast

text \<open>The bulk fields are out of reach of a chat turn.\<close>

lemma chat_turn_frame:
  "processing (sess (chat_turn loads kick status msg r)) = processing (sess r) \<and>
   kickoff_id (sess (chat_turn loads kick status msg r)) = kickoff_id (sess r) \<and>
   upload_complete (sess (chat_turn loads kick status msg r)) = upload_complete (sess r) \<and>
   should_clear_input (sess (chat_turn loads kick status msg r)) = should_clear_input (sess r)"
proof (cases rule: chat_turn_cases [of kick r msg])
  case failed
  then show ?thesis
    using chat_turn_failed [of kick r msg loads status] by simp
next
  case (started d kid)
  let ?r1 = "r\<lparr>sess := (sess r)\<lparr>chat_messages := chat_messages (sess r) @
                                   [\<lparr>role = User, content = JStr msg\<rparr>],
                                submit_clicked := False\<rparr>,
              ui := ui r @ fst (api_request (kick (chat_input_data (sess r) msg))),
              posted := posted r @ [chat_input_data (sess r) msg]\<rparr>"
  have "same_frame (sess ?r1) (sess (chat_poll_loop loads status kid 0 ?r1))"
    using chat_poll_loop_frame [of ?r1 loads status kid 0] by blast
  then show ?thesis
    unfolding chat_turn_started [of kick r msg d kid, OF started] by (simp add: same_frame_def)
qed

section \<open>What the chat shows to an observer\<close>

lemma on_success_view:
  "chat_view r = chat_view r' \<Longrightarrow>
   chat_view (on_success loads res r) = chat_view (on_success loads res r')"
  by (auto simp: chat_view_def on_success_def Let_def split: json.splits option.splits)

lemma chat_poll_body_view:
  assumes "chat_view r = chat_view r'"
  shows "fst (chat_poll_body loads h kid i r) = fst (chat_poll_body loads h kid i r') \<and>
         chat_view (snd (chat_poll_body loads h kid i r)) =
         chat_view (snd (chat_poll_body loads h kid i r'))"
proof -
  consider (ready) "chat_ready h" | (failed) "chat_failed h"
    | (last) "\<not> chat_ready h" "\<not> chat_failed h" "Suc i = max_retries"
    | (continue) "\<not> chat_ready h" "\<not> chat_failed h" "Suc i \<noteq> max_retries"
    by blast
  then show ?thesis
  proof cases
    case ready
    have "chat_view (r\<lparr>ui := ui r, calls := calls r @ [(kid, processing (sess r))]\<rparr>) =
          chat_view (r'\<lparr>ui := ui r', calls := calls r' @ [(kid, processing (sess r'))]\<rparr>)"
      using assms by (simp add: chat_view_def)
    then have "chat_view (on_success loads (chat_result h)
                 (r\<lparr>ui := ui r, calls := calls r @ [(kid, processing (sess r))]\<rparr>)) =
               chat_view (on_success loads (chat_result h)
                 (r'\<lparr>ui := ui r', calls := calls r' @ [(kid, processing (sess r'))]\<rparr>))"
      by (rule on_success_view)
    then show ?thesis
      by (simp add: chat_poll_body_ready [OF ready])
  next
    case failed
    then show ?thesis
      using assms by (simp add: chat_poll_body_failed chat_view_def)
  next
    case last
    then show ?thesis
      using assms by (simp add: chat_poll_body_last chat_view_def)
  next
    case continue
    then show ?thesis
      using assms by (simp add: chat_poll_body_continue chat_view_def)
  qed
qed

lemma chat_poll_loop_view:
  "chat_view r = chat_view r' \<Longrightarrow>
   chat_view (chat_poll_loop loads status kid i r) = chat_view (chat_poll_loop loads status kid i r')"
proof (induction loads status kid i r arbitrary: r' rule: chat_poll_loop.induct)
  case (1 loads status kid i r)
  let ?step = "chat_poll_body loads (status kid i) kid i r"
  let ?step' = "chat_poll_body loads (status kid i) kid i r'"
  have b: "fst ?step = fst ?step'" "chat_view (snd ?step) = chat_view (snd ?step')"
    using chat_poll_body_view [OF "1.prems", of loads "status kid i" kid i] by simp_all
  consider (stop) "\<not> i < max_retries" | (break) "i < max_retries" "fst ?step"
    | (go) "i < max_retries" "\<not> fst ?step" by blast
  then show ?case
  proof cases
    case stop
    then show ?thesis using "1.prems" by (simp add: chat_poll_loop_stop)
  next
    case break
    then show ?thesis using b by (simp add: chat_poll_loop_break)
  next
    case go
    have "chat_view (chat_poll_loop loads status kid (Suc i) (snd ?step)) =
          chat_view (chat_poll_loop loads status kid (Suc i) (snd ?step'))"
      using "1.IH" [OF go(1) refl go(2) b(2)] .
    then show ?thesis using go b(1) by (simp add: chat_poll_loop_next)
  qed
qed

lemma chat_view_chat_id: "chat_view r = chat_view r' \<Longrightarrow> chat_id (sess r) = chat_id (sess r')"
  by (simp add: chat_view_def)

lemma chat_turn_view:
  assumes "chat_view r = chat_view r'"
  shows "chat_view (chat_turn loads kick status msg r) = chat_view (chat_turn loads kick status msg r')"
proof -
  have p: "chat_input_data (sess r') msg = chat_input_data (sess r) msg"
    using assms by (simp add: chat_input_data_def chat_view_def)
  show ?thesis
  proof (cases rule: chat_turn_cases [of kick r msg])
    case failed
    then have "\<not> kickoff_ok (snd (api_request (kick (chat_input_data (sess r') msg))))"
      by (simp add: p)
    then show ?thesis
      using failed assms
      by (simp add: chat_turn_failed [of kick r msg] chat_turn_failed [of kick r' msg] p chat_view_def)
  next
    case (started d kid)
    then have s': "snd (api_request (kick (chat_input_data (sess r') msg))) = Some d"
      by (simp add: p)
    show ?thesis
      unfolding chat_turn_started [of kick r msg d kid, OF started]
        chat_turn_started [of kick r' msg d kid, OF s' started(2)]
      by (rule chat_poll_loop_view) (use assms in \<open>simp add: chat_view_def p\<close>)
  qed
qed

section \<open>The turn as a whole\<close>

lemma chat_turn_posted:
  "posted (chat_turn loads kick status msg r) = posted r @ [chat_input_data (sess r) msg]"
proof (cases rule: chat_turn_cases [of kick r msg])
  case failed
  then show ?thesis by (simp add: chat_turn_failed)
next
  case (started d kid)
  show ?thesis
    unfolding chat_turn_started [of kick r msg d kid, OF started]
    using chat_poll_loop_frame
    by simp
qed

lemma chat_turn_chat_id:
  "chat_id (sess (chat_turn loads kick status msg r)) = chat_id (sess r) \<or>
   (\<exists>kid n s rd. n < max_retries \<and> chat_ready (status kid n) \<and>
       chat_result (status kid n) = JStr s \<and> loads s = Some (JObj rd) \<and>
       map_of rd ''id'' = Some (chat_id (sess (chat_turn loads kick status msg r))) \<and>
       truthy (chat_id (sess (chat_turn loads kick status msg r))))"
proof (cases rule: chat_turn_cases [of kick r msg])
  case failed
  then show ?thesis by (simp add: chat_turn_failed)
next
  case (started d kid)
  let ?r1 = "r\<lparr>sess := (sess r)\<lparr>chat_messages := chat_messages (sess r) @
                                   [\<lparr>role = User, content = JStr msg\<rparr>],
                                submit_clicked := False\<rparr>,
              ui := ui r @ fst (api_request (kick (chat_input_data (sess r) msg))),
              posted := posted r @ [chat_input_data (sess r) msg]\<rparr>"
  show ?thesis
    unfolding chat_turn_started [of kick r msg d kid, OF started]
    using chat_poll_loop_chat_id [of loads status kid 0 ?r1]
    by auto
qed

lemma chat_turn_messages:
  "chat_messages (sess (chat_turn loads kick status msg r)) =
     chat_messages (sess r) @ [\<lparr>role = User, content = JStr msg\<rparr>] \<or>
   (\<exists>c. chat_messages (sess (chat_turn loads kick status msg r)) =
     chat_messages (sess r) @ [\<lparr>role = User, content = JStr msg\<rparr>, \<lparr>role = Assistant, content = c\<rparr>])"
proof (cases rule: chat_turn_cases [of kick r msg])
  case failed
  then show ?thesis by (simp add: chat_turn_failed)
next
  case (started d kid)
  let ?r1 = "r\<lparr>sess := (sess r)\<lparr>chat_messages := chat_messages (sess r) @
                                   [\<lparr>role = User, content = JStr msg\<rparr>],
                                submit_clicked := False\<rparr>,
              ui := ui r @ fst (api_request (kick (chat_input_data (sess r) msg))),
              posted := posted r @ [chat_input_data (sess r) msg]\<rparr>"
  show ?thesis
    unfolding chat_turn_started [of kick r msg d kid, OF started]
    using chat_poll_loop_messages [of loads status kid 0 ?r1]
    by auto
qed


section \<open>The result of a successful job\<close>



lemma on_success_not_object:
  "loads s = Some v \<Longrightarrow> (\<And>rd. v \<noteq> JObj rd) \<Longrightarrow>
   on_success loads (JStr s) r = r\<lparr>raised := Some AttributeError\<rparr>"
  by (cases v) (auto simp: on_success_def)

lemma on_success_not_string:
  "(\<And>s. res \<noteq> JStr s) \<Longrightarrow> on_success loads res r = r\<lparr>raised := Some TypeError\<rparr>"
  by (cases res) (auto simp: on_success_def)

section \<open>Reading the scenarios\<close>

lemma terminal_imp:
  "\<not> terminal_state (chat_state h) \<Longrightarrow> \<not> chat_ready h \<and> \<not> chat_failed h"
  "bulk_answered h \<Longrightarrow> \<not> terminal_state (bulk_state h) \<Longrightarrow> bulk_pending h"
  by (auto simp: terminal_state_def chat_ready_def chat_failed_def bulk_pending_def)

lemma status_body_reads [simp]:
  "bulk_answered (status_body st)"
  "bulk_state (status_body st) = JStr st"
  "chat_state (status_body st) = JStr st"
  "chat_result (status_body st) = JNull"
  "api_request (status_body st) = ([], Some [(''state'', JStr st)])"
  by (simp_all add: status_body_def bulk_answered_def bulk_state_def chat_state_def
        chat_result_def dict_get_def api_request_def)

lemma request_exception_reads [simp]:
  "\<not> bulk_answered RequestException"
  "chat_state RequestException = JNull"
  "chat_result RequestException = JNull"
  "api_request RequestException = ([ApiRequestFailed], None)"
  by (simp_all add: bulk_answered_def chat_state_def chat_result_def api_request_def)

lemma bulk_msgs_const:
  "(\<And>j. a \<le> j \<Longrightarrow> j < k \<Longrightarrow> bulk_state (status kid j) = v) \<Longrightarrow>
   bulk_msgs status kid a k = replicate (k - a) (CurrentState v)"
proof -
  assume v: "\<And>j. a \<le> j \<Longrightarrow> j < k \<Longrightarrow> bulk_state (status kid j) = v"
  have "map (\<lambda>j. CurrentState (bulk_state (status kid j))) [a..<k] =
        map (\<lambda>j. CurrentState v) [a..<k]"
    by (rule map_cong) (simp_all add: v)
  then show ?thesis by (simp add: bulk_msgs_def map_replicate_const)
qed

lemma api_msgs_empty:
  "(\<And>j. a \<le> j \<Longrightarrow> j < k \<Longrightarrow> fst (api_request (status kid j)) = []) \<Longrightarrow>
   api_msgs status kid a k = []"
  by (simp add: api_msgs_def)

lemma scen_sessions [simp]:
  "kickoff_id busy_session = JStr ''k1''" "processing busy_session"
  "\<not> processing init_session" "kickoff_id init_session = JNull"
  "chat_id init_session = JNull" "chat_messages init_session = []"
  by (simp_all add: busy_session_def init_session_def)

lemma start_run_simps [simp]:
  "sess (start_run s) = s" "ui (start_run s) = []" "posted (start_run s) = []"
  "calls (start_run s) = []" "raised (start_run s) = None"
  by (simp_all add: start_run_def)

text \<open>
  How each loop treats a status call that fails at the transport level. The auto-poll loop
  leaves at once. The chat poll loop goes on to the next attempt, and makes all its
  attempts when every status call fails.
\<close>

lemma poll_transport_failure:
  "((\<forall>j < k. bulk_pending (status (kickoff_id (sess r)) j)) \<and> k < max_attempts \<and>
    status (kickoff_id (sess r)) k = RequestException \<longrightarrow>
      auto_poll status r =
        r\<lparr>ui := ui r @ bulk_msgs status (kickoff_id (sess r)) 0 k @
                [ApiRequestFailed, FailedRetrieveStatus],
           calls := calls r @ replicate (Suc k) (kickoff_id (sess r), processing (sess r))\<rparr>) \<and>
   (status' kid i = RequestException \<and> Suc i < max_retries \<longrightarrow>
      chat_poll_loop loads status' kid i r' =
        chat_poll_loop loads status' kid (Suc i)
          (r'\<lparr>ui := ui r' @ [ApiRequestFailed],
              calls := calls r' @ [(kid, processing (sess r'))]\<rparr>) \<and>
      length (calls r') + 2 \<le> length (calls (chat_poll_loop loads status' kid i r'))) \<and>
   ((\<forall>j < max_retries. status' kid j = RequestException) \<longrightarrow>
      chat_poll_loop loads status' kid 0 r' =
        r'\<lparr>ui := ui r' @ replicate max_retries ApiRequestFailed @ [TimedOutWaiting],
            calls := calls r' @ replicate max_retries (kid, processing (sess r'))\<rparr>)"
proof (intro conjI impI)
  assume a: "(\<forall>j < k. bulk_pending (status (kickoff_id (sess r)) j)) \<and> k < max_attempts \<and>
    status (kickoff_id (sess r)) k = RequestException"
  then have "\<not> bulk_answered (status (kickoff_id (sess r)) k)" by simp
  with a show "auto_poll status r =
        r\<lparr>ui := ui r @ bulk_msgs status (kickoff_id (sess r)) 0 k @
                [ApiRequestFailed, FailedRetrieveStatus],
           calls := calls r @ replicate (Suc k) (kickoff_id (sess r), processing (sess r))\<rparr>"
    using auto_poll_abort_at [of k status r] by simp
next
  assume a: "status' kid i = RequestException \<and> Suc i < max_retries"
  let ?r1 = "r'\<lparr>ui := ui r' @ [ApiRequestFailed],
              calls := calls r' @ [(kid, processing (sess r'))]\<rparr>"
  have c: "\<not> chat_ready (status' kid i)" "\<not> chat_failed (status' kid i)"
    using a by (simp_all add: chat_ready_def chat_failed_def)
  have "chat_poll_body loads (status' kid i) kid i r' = (False, ?r1)"
    using chat_poll_body_continue [OF c, of i loads kid r'] a by simp
  then show eq: "chat_poll_loop loads status' kid i r' = chat_poll_loop loads status' kid (Suc i) ?r1"
    using a chat_poll_loop_next [of i loads status' kid r'] by simp
  obtain n where "calls (chat_poll_loop loads status' kid (Suc i) ?r1) =
       calls ?r1 @ replicate n (kid, processing (sess ?r1))" "0 < n"
    using chat_poll_loop_calls [of loads status' kid "Suc i" ?r1] a by blast
  then show "length (calls r') + 2 \<le> length (calls (chat_poll_loop loads status' kid i r'))"
    unfolding eq by simp
next
  assume a: "\<forall>j < max_retries. status' kid j = RequestException"
  then have c: "\<forall>j < max_retries. \<not> chat_ready (status' kid j) \<and> \<not> chat_failed (status' kid j)"
    by (simp add: chat_ready_def chat_failed_def)
  have "map (\<lambda>j. fst (api_request (status' kid j))) [0..<max_retries] =
        map (\<lambda>j. [ApiRequestFailed]) [0..<max_retries]"
    by (rule map_cong) (simp_all add: a)
  then have m: "api_msgs status' kid 0 max_retries = replicate max_retries ApiRequestFailed"
    by (simp add: api_msgs_def map_replicate_const)
  show "chat_poll_loop loads status' kid 0 r' =
        r'\<lparr>ui := ui r' @ replicate max_retries ApiRequestFailed @ [TimedOutWaiting],
            calls := calls r' @ replicate max_retries (kid, processing (sess r'))\<rparr>"
    using chat_poll_exhaust [of status' kid loads r'] c by (simp add: m)
qed

text \<open>
  Clearing the chat puts it back where a new session starts; and the first turn of the
  conversation scenario, evaluated.
\<close>

lemma clear_chat_view:
  "chat_view (start_run (clear_chat s)) = chat_view (start_run init_session)"
  by (simp add: chat_view_def clear_chat_def)

lemma hello_scenario:
  "sess (chat_turn loads_example kick_k1 (\<lambda>kid n. success_with (JStr hi_result)) ''Hello''
           (start_run init_session)) = after_hello"
  by code_simp

section \<open>The handler of "Process All Documents"\<close>











text \<open>The kickoff responses of the scenarios.\<close>

lemma kick_reads [simp]:
  "snd (api_request (kick_k1 payload)) = Some [(''kickoff_id'', JStr ''k1'')]"
  "fst (api_request (kick_k1 payload)) = []"
  "snd (api_request RequestException) = None"
  "snd (api_request (Body d)) = Some d"
  "\<not> kickoff_ok None" "\<not> kickoff_ok (Some [])"
  by (simp_all add: kick_k1_def api_request_def kickoff_ok_def)




lemma success_with_reads [simp]:
  "bulk_answered (success_with res)"
  "chat_state (success_with res) = JStr ''SUCCESS''"
  "chat_result (success_with res) = res"
  "chat_ready (success_with res) = truthy res"
  "\<not> chat_failed (success_with res)"
  "fst (api_request (success_with res)) = []"
  by (simp_all add: success_with_def bulk_answered_def chat_state_def chat_result_def
        chat_ready_def chat_failed_def dict_get_def api_request_def)

section \<open>Listing a folder\<close>

lemma foldl_add_object:
  "foldl (add_object bucket prefix) files objs =
   files @ map (file_entry bucket)
             (filter (\<lambda>obj. Key obj \<noteq> prefix \<and> \<not> endswith_slash (Key obj)) objs)"
  by (induction objs arbitrary: files) (simp_all add: add_object_def Let_def)

lemma add_page_eq:
  "add_page bucket prefix files pg =
   files @ map (file_entry bucket)
             (filter (\<lambda>obj. Key obj \<noteq> prefix \<and> \<not> endswith_slash (Key obj))
                (case_option [] (\<lambda>contents. contents) pg))"
  by (cases pg) (simp_all add: add_page_def foldl_add_object)

lemma foldl_add_page:
  "foldl (add_page bucket prefix) files pages =
   files @ map (file_entry bucket)
             (filter (\<lambda>obj. Key obj \<noteq> prefix \<and> \<not> endswith_slash (Key obj))
                (concat (map (case_option [] (\<lambda>contents. contents)) pages)))"
proof (induction pages arbitrary: files)
  case Nil
  show ?case by simp
next
  case (Cons pg pages)
  have "foldl (add_page bucket prefix) files (pg # pages) =
        foldl (add_page bucket prefix) (add_page bucket prefix files pg) pages"
    by simp
  also have "\<dots> = add_page bucket prefix files pg @ map (file_entry bucket)
             (filter (\<lambda>obj. Key obj \<noteq> prefix \<and> \<not> endswith_slash (Key obj))
                (concat (map (case_option [] (\<lambda>contents. contents)) pages)))"
    by (rule Cons.IH)
  also have "\<dots> = files @ map (file_entry bucket)
             (filter (\<lambda>obj. Key obj \<noteq> prefix \<and> \<not> endswith_slash (Key obj))
                (concat (map (case_option [] (\<lambda>contents. contents)) (pg # pages))))"
    by (simp add: add_page_eq)
  finally show ?case .
qed

lemma concat_chunks: "0 < n \<Longrightarrow> concat (chunks n xs) = xs"
proof (induction n xs rule: chunks.induct)
  case (1 n xs)
  show ?case
  proof (cases "xs = []")
    case True
    then show ?thesis by (simp add: chunks.simps)
  next
    case False
    then have "concat (chunks n xs) = take n xs @ concat (chunks n (drop n xs))"
      using "1.prems" by (subst chunks.simps) simp
    also have "\<dots> = take n xs @ drop n xs"
      using 1 False by simp
    finally show ?thesis by simp
  qed
qed

lemma s3_paginate_objects:
  assumes "0 < page_size" "store bucket = Some objs"
  shows "\<exists>pages. s3_paginate page_size store bucket prefix = Some pages \<and>
           concat (map (case_option [] (\<lambda>contents. contents)) pages) =
           filter (\<lambda>obj. starts_with prefix (Key obj)) objs"
proof (cases "filter (\<lambda>obj. starts_with prefix (Key obj)) objs = []")
  case True
  then show ?thesis using assms by (simp add: s3_paginate_def)
next
  case False
  have "concat (map (case_option [] (\<lambda>contents. contents)) (map Some xss)) = concat xss"
    for xss :: "s3_object list list"
    by (induction xss) simp_all
  then show ?thesis
    using False assms by (simp add: s3_paginate_def Let_def concat_chunks)
qed

lemma list_s3_files_store:
  assumes "0 < page_size" "store bucket = Some objs" "parse_s3_uri uri = (bucket, prefix0)"
  shows "list_s3_files (s3_paginate page_size store) uri =
         map (file_entry bucket) (filter (listed (folder_prefix prefix0)) objs)"
proof -
  from s3_paginate_objects [of page_size store bucket objs "folder_prefix prefix0",
         OF assms(1) assms(2)]
  obtain pages where p: "s3_paginate page_size store bucket (folder_prefix prefix0) = Some pages \<and>
      concat (map (case_option [] (\<lambda>contents. contents)) pages) =
      filter (\<lambda>obj. starts_with (folder_prefix prefix0) (Key obj)) objs" ..
  have "filter (\<lambda>obj. Key obj \<noteq> folder_prefix prefix0 \<and> \<not> endswith_slash (Key obj))
          (filter (\<lambda>obj. starts_with (folder_prefix prefix0) (Key obj)) objs) =
        filter (listed (folder_prefix prefix0)) objs"
    by (induction objs) (auto simp: listed_def)
  then show ?thesis
    using p assms(3) by (simp add: list_s3_files_def Let_def foldl_add_page)
qed

lemma list_s3_files_unreachable:
  assumes "parse_s3_uri uri = (bucket, prefix0)" "store bucket = None"
  shows "list_s3_files (s3_paginate page_size store) uri = []"
  using assms by (simp add: list_s3_files_def Let_def s3_paginate_def)


section \<open>Formatting a size\<close>

lemma round_half_even_near:
  assumes "0 < den"
  shows "2 * num \<le> 2 * (den * round_half_even num den) + den \<and>
         2 * (den * round_half_even num den) \<le> 2 * num + den"
proof -
  define q where "q = num div den"
  define m where "m = num mod den"
  define t where "t = round_half_even num den"
  have num: "num = den * q + m" by (simp add: q_def m_def)
  have m: "m < den" using assms by (simp add: m_def)
  have t: "t = (if 2 * m < den then q else if 2 * m > den then q + 1
                else if even q then q else q + 1)"
    by (simp add: t_def round_half_even_def Let_def q_def m_def)
  have up: "den * (q + 1) = den * q + den" by simp
  have "t = q \<and> 2 * m \<le> den \<or> t = q + 1 \<and> den \<le> 2 * m"
    using t by (auto split: if_splits)
  then have "2 * (den * q + m) \<le> 2 * (den * t) + den \<and> 2 * (den * t) \<le> 2 * (den * q + m) + den"
    using m by (auto simp: up)
  then show ?thesis by (simp add: num [symmetric] t_def)
qed

lemma format_size_cases:
  "n < 1024 \<Longrightarrow> format_size n = str_nat n @ '' B''"
  "1024 \<le> n \<Longrightarrow> n < 1024 * 1024 \<Longrightarrow> format_size n = format_1f n 1024 @ '' KB''"
  "1024 * 1024 \<le> n \<Longrightarrow> format_size n = format_1f n (1024 * 1024) @ '' MB''"
  by (simp_all add: format_size_def)

lemma format_1f_shape:
  "format_1f n d =
     str_nat (round_half_even (10 * n) d div 10) @ ''.'' @
     [digit_char (round_half_even (10 * n) d mod 10)]"
  by (simp add: format_1f_def Let_def)

section \<open>The listing scenario\<close>

lemma parse_docs: "parse_s3_uri ''s3://bucket/docs'' = (''bucket'', ''docs'')"
  by code_simp

lemma folder_docs: "folder_prefix ''docs'' = ''docs/''"
  by code_simp

lemma format_500: "format_size 500 = ''500 B''"
  by (simp add: format_size_def str_nat.simps digit_char_def)

lemma format_2048: "format_size 2048 = ''2.0 KB''"
  by (simp add: format_size_def format_1f_def round_half_even_def str_nat.simps digit_char_def)

lemma listed_docs:
  "\<not> listed ''docs/'' \<lparr>Key = ''docs/'', Size = 0\<rparr>"
  "listed ''docs/'' \<lparr>Key = ''docs/a.txt'', Size = 500\<rparr>"
  "listed ''docs/'' \<lparr>Key = ''docs/sub/b.txt'', Size = 2048\<rparr>"
  by (simp_all add: listed_def starts_with_def endswith_slash_def)

lemma entries_docs:
  "file_entry ''bucket'' \<lparr>Key = ''docs/a.txt'', Size = 500\<rparr> =
     \<lparr>file_name = ''a.txt'', file_uri = ''s3://bucket/docs/a.txt'', file_size = 500,
      size_str = ''500 B''\<rparr>"
  "file_entry ''bucket'' \<lparr>Key = ''docs/sub/b.txt'', Size = 2048\<rparr> =
     \<lparr>file_name = ''b.txt'', file_uri = ''s3://bucket/docs/sub/b.txt'', file_size = 2048,
      size_str = ''2.0 KB''\<rparr>"
  by (simp_all add: file_entry_def last_segment_def format_500 format_2048)

lemma docs_listing:
  "list_s3_files (s3_paginate 1000 docs_store) ''s3://bucket/docs'' =
     [\<lparr>file_name = ''a.txt'', file_uri = ''s3://bucket/docs/a.txt'', file_size = 500,
       size_str = ''500 B''\<rparr>,
      \<lparr>file_name = ''b.txt'', file_uri = ''s3://bucket/docs/sub/b.txt'', file_size = 2048,
       size_str = ''2.0 KB''\<rparr>]"
proof -
  have "docs_store ''bucket'' = Some [\<lparr>Key = ''docs/'', Size = 0\<rparr>,
                 \<lparr>Key = ''docs/a.txt'', Size = 500\<rparr>,
                 \<lparr>Key = ''docs/sub/b.txt'', Size = 2048\<rparr>]"
    by (simp add: docs_store_def)
  from list_s3_files_store [of 1000 docs_store "''bucket''" _ "''s3://bucket/docs''" "''docs''",
         OF _ this parse_docs]
  show ?thesis
    by (simp add: folder_docs listed_docs entries_docs)
qed

section \<open>Claims\<close>

text \<open>
  C10. A chat turn only ever modifies the chat fields of the session (the transcript, the
  conversation id and the submit flag): whatever the kickoff and status endpoints answer
  and whatever \<open>json.loads\<close> makes of a result, the fields \<open>kickoff_id\<close>, \<open>processing\<close> and
  \<open>upload_complete\<close> of the bulk processing are the same after the turn as before it.
\<close>

theorem C10_chat_turn_frame:
  "kickoff_id (sess (chat_turn loads kick status msg r)) = kickoff_id (sess r) \<and>
   processing (sess (chat_turn loads kick status msg r)) = processing (sess r) \<and>
   upload_complete (sess (chat_turn loads kick status msg r)) = upload_complete (sess r)"
  using chat_turn_frame [of loads kick status msg r] by simp

text \<open>
  C1. A status response with state \<open>FAILURE\<close> or \<open>TIMEOUT\<close> should end polling at that
  attempt, with the job error reported, in the auto-poll loop as in the chat poll loop.
  The chat loop does so. The auto-poll loop only tests for \<open>SUCCESS\<close>: on a job that
  reports \<open>FAILURE\<close> it issues all 30 status calls, leaves \<open>processing\<close> set and ends on
  the warning that processing is taking longer than expected, while the chat loop on the
  same responses stops after the first call and reports the failed state.
\<close>

theorem C1_bulk_failure_is_repolled:
  "auto_poll (\<lambda>kid n. status_body ''FAILURE'') (start_run busy_session) =
     (start_run busy_session)
       \<lparr>ui := replicate 30 (CurrentState (JStr ''FAILURE'')) @ [TakingLonger, ManualRefreshHint],
        calls := replicate 30 (JStr ''k1'', True)\<rparr> \<and>
   chat_poll_loop loads_example (\<lambda>kid n. status_body ''FAILURE'') (JStr ''k1'') 0
       (start_run init_session) =
     (start_run init_session)
       \<lparr>ui := [RequestFailedState (JStr ''FAILURE'')], calls := [(JStr ''k1'', False)]\<rparr>"
proof
  let ?status = "\<lambda>(kid :: json) (n :: nat). status_body ''FAILURE''"
  have "\<forall>j < max_attempts. bulk_pending (?status (kickoff_id (sess (start_run busy_session))) j)"
    by (simp add: bulk_pending_def)
  from auto_poll_exhaust [OF this]
  show "auto_poll ?status (start_run busy_session) =
     (start_run busy_session)
       \<lparr>ui := replicate 30 (CurrentState (JStr ''FAILURE'')) @ [TakingLonger, ManualRefreshHint],
        calls := replicate 30 (JStr ''k1'', True)\<rparr>"
    by (simp add: bulk_msgs_const [where v = "JStr ''FAILURE''"] max_attempts_def)
  have "chat_failed (?status (JStr ''k1'') 0)" by (simp add: chat_failed_def)
  from chat_poll_failed_at [of 0 ?status "JStr ''k1''", OF _ this]
  show "chat_poll_loop loads_example ?status (JStr ''k1'') 0 (start_run init_session) =
     (start_run init_session)
       \<lparr>ui := [RequestFailedState (JStr ''FAILURE'')], calls := [(JStr ''k1'', False)]\<rparr>"
    by (simp add: max_retries_def)
qed

text \<open>
  C5. Polling is counted in attempts. When no status response reports a terminal state,
  the auto-poll loop issues exactly 30 status calls and then warns that processing is
  taking longer than expected, and the chat poll loop issues exactly 120 status calls and
  then reports that it timed out. When the bulk job reports \<open>RUNNING\<close> five times and
  then \<open>SUCCESS\<close>, exactly 6 status calls are issued, each of them while \<open>processing\<close>
  is still set, and \<open>processing\<close> is cleared after the sixth.
\<close>

theorem C5_attempt_counted_polling:
  "max_attempts = 30 \<and> max_retries = 120 \<and>
   ((\<forall>j < max_attempts. bulk_answered (status (kickoff_id (sess r)) j) \<and>
                         \<not> terminal_state (bulk_state (status (kickoff_id (sess r)) j))) \<longrightarrow>
      auto_poll status r =
        r\<lparr>ui := ui r @ bulk_msgs status (kickoff_id (sess r)) 0 max_attempts @
                [TakingLonger, ManualRefreshHint],
           calls := calls r @ replicate max_attempts (kickoff_id (sess r), processing (sess r))\<rparr>) \<and>
   ((\<forall>j < max_retries. \<not> terminal_state (chat_state (status' kid j))) \<longrightarrow>
      chat_poll_loop loads status' kid 0 r' =
        r'\<lparr>ui := ui r' @ api_msgs status' kid 0 max_retries @ [TimedOutWaiting],
            calls := calls r' @ replicate max_retries (kid, processing (sess r'))\<rparr>) \<and>
   auto_poll running_5_then_success (start_run busy_session) =
     (start_run busy_session)
       \<lparr>sess := busy_session\<lparr>processing := False\<rparr>,
        ui := replicate 5 (CurrentState (JStr ''RUNNING'')) @ [CurrentState (JStr ''SUCCESS''), Done],
        calls := replicate 6 (JStr ''k1'', True)\<rparr>"
proof (intro conjI impI)
  show "max_attempts = 30" "max_retries = 120"
    by (simp_all add: max_attempts_def max_retries_def)
next
  assume "\<forall>j < max_attempts. bulk_answered (status (kickoff_id (sess r)) j) \<and>
                         \<not> terminal_state (bulk_state (status (kickoff_id (sess r)) j))"
  then have "\<forall>j < max_attempts. bulk_pending (status (kickoff_id (sess r)) j)"
    by (simp add: terminal_imp)
  then show "auto_poll status r =
        r\<lparr>ui := ui r @ bulk_msgs status (kickoff_id (sess r)) 0 max_attempts @
                [TakingLonger, ManualRefreshHint],
           calls := calls r @ replicate max_attempts (kickoff_id (sess r), processing (sess r))\<rparr>"
    by (rule auto_poll_exhaust)
next
  assume "\<forall>j < max_retries. \<not> terminal_state (chat_state (status' kid j))"
  then have "\<forall>j < max_retries. \<not> chat_ready (status' kid j) \<and> \<not> chat_failed (status' kid j)"
    by (simp add: terminal_imp)
  then show "chat_poll_loop loads status' kid 0 r' =
        r'\<lparr>ui := ui r' @ api_msgs status' kid 0 max_retries @ [TimedOutWaiting],
            calls := calls r' @ replicate max_retries (kid, processing (sess r'))\<rparr>"
    by (rule chat_poll_exhaust)
next
  have p: "\<forall>j < 5. bulk_pending (running_5_then_success (kickoff_id (sess (start_run busy_session))) j)"
    by (simp add: running_5_then_success_def bulk_pending_def)
  have d: "bulk_done (running_5_then_success (kickoff_id (sess (start_run busy_session))) 5)"
    by (simp add: running_5_then_success_def bulk_done_def)
  have m: "bulk_msgs running_5_then_success (JStr ''k1'') 0 5 = replicate 5 (CurrentState (JStr ''RUNNING''))"
    using bulk_msgs_const [of 0 5 running_5_then_success "JStr ''k1''" "JStr ''RUNNING''"]
    by (simp add: running_5_then_success_def)
  have "auto_poll running_5_then_success (start_run busy_session) =
     (start_run busy_session)
       \<lparr>ui := replicate 5 (CurrentState (JStr ''RUNNING'')) @ [CurrentState (JStr ''SUCCESS''), Done],
        calls := replicate 6 (JStr ''k1'', True),
        sess := busy_session\<lparr>processing := False\<rparr>\<rparr>"
    using auto_poll_success_at [of 5 running_5_then_success "start_run busy_session"] p d
    by (simp add: max_attempts_def m)
  then show "auto_poll running_5_then_success (start_run busy_session) =
     (start_run busy_session)
       \<lparr>sess := busy_session\<lparr>processing := False\<rparr>,
        ui := replicate 5 (CurrentState (JStr ''RUNNING'')) @ [CurrentState (JStr ''SUCCESS''), Done],
        calls := replicate 6 (JStr ''k1'', True)\<rparr>"
    by simp
qed

text \<open>
  C5, on a bulk job that stays \<open>RUNNING\<close> and a chat job that stays \<open>PENDING\<close>.
\<close>

theorem C5_attempt_counted_polling_witness:
  "auto_poll (\<lambda>kid n. status_body ''RUNNING'') (start_run busy_session) =
     (start_run busy_session)
       \<lparr>ui := replicate 30 (CurrentState (JStr ''RUNNING'')) @ [TakingLonger, ManualRefreshHint],
        calls := replicate 30 (JStr ''k1'', True)\<rparr> \<and>
   chat_poll_loop loads_example (\<lambda>kid n. status_body ''PENDING'') (JStr ''k1'') 0
       (start_run init_session) =
     (start_run init_session)\<lparr>ui := [TimedOutWaiting], calls := replicate 120 (JStr ''k1'', False)\<rparr>"
  using C5_attempt_counted_polling
          [of "\<lambda>kid n. status_body ''RUNNING''" "start_run busy_session"
              "\<lambda>kid n. status_body ''PENDING''" "JStr ''k1''" loads_example "start_run init_session"]
  by (simp add: terminal_state_def bulk_msgs_const [where v = "JStr ''RUNNING''"] api_msgs_empty)

text \<open>
  C2. The first status call that fails at the transport level should end polling at once,
  in the chat poll loop as in the auto-poll loop. The auto-poll loop does so: on a job
  whose third status call fails it stops after that call and shows that the status could
  not be retrieved. The chat poll loop does not: when the first status call fails and
  the second succeeds it issues both calls, and when every status call fails it issues
  all 120 of them, shows 120 request errors and ends on the time-out message.
\<close>

theorem C2_chat_polls_past_failed_call:
  "calls (chat_poll_loop loads_example
            (\<lambda>kid n. if n = 0 then RequestException else success_with (JStr ''{}''))
            (JStr ''k1'') 0 (start_run init_session)) =
     [(JStr ''k1'', False), (JStr ''k1'', False)] \<and>
   chat_poll_loop loads_example (\<lambda>kid n. RequestException) (JStr ''k1'') 0 (start_run init_session) =
     (start_run init_session)
       \<lparr>ui := replicate 120 ApiRequestFailed @ [TimedOutWaiting],
        calls := replicate 120 (JStr ''k1'', False)\<rparr> \<and>
   auto_poll (\<lambda>kid n. if n < 2 then status_body ''RUNNING'' else RequestException)
       (start_run busy_session) =
     (start_run busy_session)
       \<lparr>ui := replicate 2 (CurrentState (JStr ''RUNNING'')) @ [ApiRequestFailed, FailedRetrieveStatus],
        calls := replicate 3 (JStr ''k1'', True)\<rparr>"
proof -
  let ?status = "\<lambda>(kid :: json) (n :: nat). if n < 2 then status_body ''RUNNING'' else RequestException"
  note t = poll_transport_failure [where k = 2 and status = ?status and r = "start_run busy_session"
            and status' = "\<lambda>kid n. RequestException" and kid = "JStr ''k1''" and i = 0
            and loads = loads_example and r' = "start_run init_session"]
  have m: "bulk_msgs ?status (JStr ''k1'') 0 2 = replicate 2 (CurrentState (JStr ''RUNNING''))"
    using bulk_msgs_const [of 0 2 ?status "JStr ''k1''" "JStr ''RUNNING''"] by simp
  have a: "auto_poll ?status (start_run busy_session) =
     (start_run busy_session)
       \<lparr>ui := replicate 2 (CurrentState (JStr ''RUNNING'')) @ [ApiRequestFailed, FailedRetrieveStatus],
        calls := replicate 3 (JStr ''k1'', True)\<rparr>"
    using t [THEN conjunct1] by (simp add: bulk_pending_def max_attempts_def m)
  have b: "2 \<le> length (calls (chat_poll_loop loads_example (\<lambda>kid n. RequestException)
                        (JStr ''k1'') 0 (start_run init_session)))"
  proof -
    have h: "(\<lambda>(kid :: json) (n :: nat). RequestException) (JStr ''k1'') 0 = RequestException \<and>
             Suc 0 < max_retries"
      by (simp add: max_retries_def)
    from t [THEN conjunct2, THEN conjunct1, THEN mp, OF h, THEN conjunct2]
    show ?thesis by simp
  qed
  have c: "chat_poll_loop loads_example (\<lambda>kid n. RequestException) (JStr ''k1'') 0 (start_run init_session) =
     (start_run init_session)
       \<lparr>ui := replicate 120 ApiRequestFailed @ [TimedOutWaiting],
        calls := replicate 120 (JStr ''k1'', False)\<rparr>"
    using t [THEN conjunct2, THEN conjunct2] by (simp add: max_retries_def)
  have d: "calls (chat_poll_loop loads_example
            (\<lambda>kid n. if n = 0 then RequestException else success_with (JStr ''{}''))
            (JStr ''k1'') 0 (start_run init_session)) =
     [(JStr ''k1'', False), (JStr ''k1'', False)]"
    by code_simp
  from d c a show ?thesis by (intro conjI)
qed

text \<open>
  C6. In every chat turn the user's message is appended to the transcript before the
  kickoff request is made, and it stays there: after the turn the transcript is the old
  one followed by the user's message and at most one assistant reply, whatever the
  endpoints answer. When the kickoff fails (no response, or a response without
  \<open>kickoff_id\<close>) the transcript ends with the user's message, no status call is made, and
  nothing else in the session changes: the turn only resets its own submit flag.
\<close>

theorem C6_user_message_kept:
  "(chat_messages (sess (chat_turn loads kick status msg r)) =
      chat_messages (sess r) @ [\<lparr>role = User, content = JStr msg\<rparr>] \<or>
    (\<exists>c. chat_messages (sess (chat_turn loads kick status msg r)) =
      chat_messages (sess r) @
        [\<lparr>role = User, content = JStr msg\<rparr>, \<lparr>role = Assistant, content = c\<rparr>])) \<and>
   (\<not> kickoff_ok (snd (api_request (kick (chat_input_data (sess r) msg)))) \<longrightarrow>
      sess (chat_turn loads kick status msg r) =
        (sess r)\<lparr>chat_messages := chat_messages (sess r) @ [\<lparr>role = User, content = JStr msg\<rparr>],
                 submit_clicked := False\<rparr> \<and>
      calls (chat_turn loads kick status msg r) = calls r \<and>
      raised (chat_turn loads kick status msg r) = raised r)"
proof (intro conjI impI)
  show "chat_messages (sess (chat_turn loads kick status msg r)) =
      chat_messages (sess r) @ [\<lparr>role = User, content = JStr msg\<rparr>] \<or>
    (\<exists>c. chat_messages (sess (chat_turn loads kick status msg r)) =
      chat_messages (sess r) @
        [\<lparr>role = User, content = JStr msg\<rparr>, \<lparr>role = Assistant, content = c\<rparr>])"
    by (rule chat_turn_messages)
next
  assume f: "\<not> kickoff_ok (snd (api_request (kick (chat_input_data (sess r) msg))))"
  note t = chat_turn_failed [of kick r msg loads status, OF f]
  show "sess (chat_turn loads kick status msg r) =
        (sess r)\<lparr>chat_messages := chat_messages (sess r) @ [\<lparr>role = User, content = JStr msg\<rparr>],
                 submit_clicked := False\<rparr>"
    unfolding t by simp
  show "calls (chat_turn loads kick status msg r) = calls r"
    unfolding t by simp
  show "raised (chat_turn loads kick status msg r) = raised r"
    unfolding t by simp
qed

text \<open>C6, on a follow-up turn whose kickoff request fails.\<close>

theorem C6_user_message_kept_witness:
  "sess (chat_turn loads_example (\<lambda>payload. RequestException) running_5_then_success ''Hello''
           (start_run after_hello)) =
     after_hello\<lparr>chat_messages := chat_messages after_hello @ [\<lparr>role = User, content = JStr ''Hello''\<rparr>],
                 submit_clicked := False\<rparr> \<and>
   calls (chat_turn loads_example (\<lambda>payload. RequestException) running_5_then_success ''Hello''
           (start_run after_hello)) = []"
  using C6_user_message_kept [of loads_example "\<lambda>payload. RequestException" running_5_then_success
          "''Hello''" "start_run after_hello"]
  by (simp add: kickoff_ok_def)

text \<open>
  C4. The conversation id is sticky and never made up. After a chat turn it is the one
  stored before, or it is the \<open>id\<close> field of the decoded result of a status response in
  state \<open>SUCCESS\<close> of that turn, taken as it is; a turn never unsets it. The kickoff
  payload of a turn carries the stored id as \<open>id\<close> when one is stored and has no \<open>id\<close>
  field when none is. "Clear Chat" empties the transcript and unsets the id, so that the
  next payload has no \<open>id\<close> field and the turn shows, posts, polls and records exactly
  what the same turn does in a new session.
\<close>

theorem C4_conversation_id_sticky:
  "(chat_id (sess (chat_turn loads kick status msg r)) = chat_id (sess r) \<or>
    (\<exists>kid n s rd. n < max_retries \<and> chat_ready (status kid n) \<and>
        chat_result (status kid n) = JStr s \<and> loads s = Some (JObj rd) \<and>
        map_of rd ''id'' = Some (chat_id (sess (chat_turn loads kick status msg r))))) \<and>
   (chat_id (sess r) \<noteq> JNull \<longrightarrow> chat_id (sess (chat_turn loads kick status msg r)) \<noteq> JNull) \<and>
   posted (chat_turn loads kick status msg r) = posted r @ [chat_input_data (sess r) msg] \<and>
   chat_input_data (sess r) msg =
     JObj [(''inputs'', JObj ((''current_message'', JStr msg) #
             (if chat_id (sess r) = JNull then [] else [(''id'', chat_id (sess r))])))] \<and>
   chat_messages (clear_chat s) = [] \<and> chat_id (clear_chat s) = JNull \<and>
   chat_input_data (clear_chat s) msg = JObj [(''inputs'', JObj [(''current_message'', JStr msg)])] \<and>
   chat_view (chat_turn loads kick status msg (start_run (clear_chat s))) =
     chat_view (chat_turn loads kick status msg (start_run init_session))"
proof (intro conjI impI)
  note id = chat_turn_chat_id [of loads kick status msg r]
  from id show "chat_id (sess (chat_turn loads kick status msg r)) = chat_id (sess r) \<or>
    (\<exists>kid n s rd. n < max_retries \<and> chat_ready (status kid n) \<and>
        chat_result (status kid n) = JStr s \<and> loads s = Some (JObj rd) \<and>
        map_of rd ''id'' = Some (chat_id (sess (chat_turn loads kick status msg r))))"
    by blast
  assume set: "chat_id (sess r) \<noteq> JNull"
  from id have "chat_id (sess (chat_turn loads kick status msg r)) = chat_id (sess r) \<or>
                truthy (chat_id (sess (chat_turn loads kick status msg r)))"
    by blast
  then show "chat_id (sess (chat_turn loads kick status msg r)) \<noteq> JNull"
    using set by auto
next
  show "posted (chat_turn loads kick status msg r) = posted r @ [chat_input_data (sess r) msg]"
    by (rule chat_turn_posted)
  show "chat_input_data (sess r) msg =
     JObj [(''inputs'', JObj ((''current_message'', JStr msg) #
             (if chat_id (sess r) = JNull then [] else [(''id'', chat_id (sess r))])))]"
    by (simp add: chat_input_data_def)
  show "chat_messages (clear_chat s) = []" "chat_id (clear_chat s) = JNull"
    by (simp_all add: clear_chat_def)
  show "chat_input_data (clear_chat s) msg = JObj [(''inputs'', JObj [(''current_message'', JStr msg)])]"
    by (simp add: chat_input_data_def clear_chat_def)
  show "chat_view (chat_turn loads kick status msg (start_run (clear_chat s))) =
     chat_view (chat_turn loads kick status msg (start_run init_session))"
    using clear_chat_view by (rule chat_turn_view)
qed

text \<open>
  C4, on the conversation scenario: the turn "Hello" stores the id \<open>c1\<close>, the turn "More"
  sends it and keeps it, and after "Clear Chat" the payload has no \<open>id\<close>.
\<close>

theorem C4_conversation_id_sticky_witness:
  "sess (chat_turn loads_example kick_k1 (\<lambda>kid n. success_with (JStr hi_result)) ''Hello''
           (start_run init_session)) = after_hello \<and>
   chat_id after_hello = JStr ''c1'' \<and>
   chat_id (sess (chat_turn loads_example kick_k1 (\<lambda>kid n. status_body ''FAILURE'') ''More''
                   (start_run after_hello))) \<noteq> JNull \<and>
   posted (chat_turn loads_example kick_k1 (\<lambda>kid n. status_body ''FAILURE'') ''More''
             (start_run after_hello)) =
     [JObj [(''inputs'', JObj [(''current_message'', JStr ''More''), (''id'', JStr ''c1'')])]] \<and>
   posted (chat_turn loads_example kick_k1 (\<lambda>kid n. status_body ''FAILURE'') ''More''
             (start_run (clear_chat after_hello))) =
     [JObj [(''inputs'', JObj [(''current_message'', JStr ''More'')])]]"
proof -
  note t = C4_conversation_id_sticky [of loads_example kick_k1 "\<lambda>kid n. status_body ''FAILURE''"
             "''More''" "start_run after_hello" after_hello]
  note u = C4_conversation_id_sticky [of loads_example kick_k1 "\<lambda>kid n. status_body ''FAILURE''"
             "''More''" "start_run (clear_chat after_hello)" after_hello]
  have id: "chat_id after_hello = JStr ''c1''" by (simp add: after_hello_def)
  have a: "chat_id (sess (chat_turn loads_example kick_k1 (\<lambda>kid n. status_body ''FAILURE'') ''More''
                   (start_run after_hello))) \<noteq> JNull"
    using t [THEN conjunct2, THEN conjunct1] by (simp add: id)
  have b: "posted (chat_turn loads_example kick_k1 (\<lambda>kid n. status_body ''FAILURE'') ''More''
             (start_run after_hello)) =
     [JObj [(''inputs'', JObj [(''current_message'', JStr ''More''), (''id'', JStr ''c1'')])]]"
    using t [THEN conjunct2, THEN conjunct2] by (simp add: id)
  have c: "posted (chat_turn loads_example kick_k1 (\<lambda>kid n. status_body ''FAILURE'') ''More''
             (start_run (clear_chat after_hello))) =
     [JObj [(''inputs'', JObj [(''current_message'', JStr ''More'')])]]"
    using u [THEN conjunct2, THEN conjunct2] by (simp add: clear_chat_def)
  from hello_scenario id a b c show ?thesis by (intro conjI)
qed








text \<open>
  C8, as stated, fails on its own scenario: the listing of \<open>s3://bucket/docs\<close> over the
  marker \<open>docs/\<close>, \<open>docs/a.txt\<close> and \<open>docs/sub/b.txt\<close> returns \<open>a.txt\<close> and also \<open>b.txt\<close>,
  the object under the nested prefix.
\<close>

theorem C8_nested_object_is_listed:
  "map file_name (list_s3_files (s3_paginate 1000 docs_store) ''s3://bucket/docs'') =
     [''a.txt'', ''b.txt'']"
  by (simp add: docs_listing)

text \<open>
  C8, amended. Listing a folder URI returns, in the order of the store and whatever the
  page size, exactly the objects whose key starts with the prefix (completed with a slash
  when it is not empty), except the prefix key itself and the keys that end in a slash:
  objects under nested prefixes are listed, and a directory marker is recognised by the
  slash that ends its key, not by its length. Each entry carries the last segment of the
  key as name, the URI of the object, its size, and the size rendered as \<open><n> B\<close> below
  1024 bytes, in kilobytes with one decimal below 1 MiB, else in megabytes with one
  decimal, the decimal being the nearest tenth. In particular the listing of
  \<open>s3://bucket/docs\<close> over the marker \<open>docs/\<close>, \<open>docs/a.txt\<close> (500 bytes) and
  \<open>docs/sub/b.txt\<close> returns \<open>a.txt\<close> with size \<open>500 B\<close>, then \<open>b.txt\<close>.
\<close>

theorem C8_listing:
  "(0 < page_size \<and> parse_s3_uri uri = (bucket, prefix0) \<and> store bucket = Some objs \<and>
    (\<forall>obj \<in> set objs. Size obj < 2 ^ 53) \<longrightarrow>
      list_s3_files (s3_paginate page_size store) uri =
        map (file_entry bucket) (filter (listed (folder_prefix prefix0)) objs)) \<and>
   (listed prefix obj \<longleftrightarrow>
      starts_with prefix (Key obj) \<and> Key obj \<noteq> prefix \<and> \<not> endswith_slash (Key obj)) \<and>
   file_entry bucket obj =
     \<lparr>file_name = last_segment (Key obj), file_uri = ''s3://'' @ bucket @ ''/'' @ Key obj,
      file_size = Size obj, size_str = format_size (Size obj)\<rparr> \<and>
   (n < 1024 \<longrightarrow> format_size n = str_nat n @ '' B'') \<and>
   (1024 \<le> n \<and> n < 1024 * 1024 \<longrightarrow>
      (\<exists>t. format_size n = str_nat (t div 10) @ ''.'' @ [digit_char (t mod 10)] @ '' KB'' \<and>
           2 * (10 * n) \<le> 2 * (1024 * t) + 1024 \<and> 2 * (1024 * t) \<le> 2 * (10 * n) + 1024)) \<and>
   (1024 * 1024 \<le> n \<and> n < 2 ^ 53 \<longrightarrow>
      (\<exists>t. format_size n = str_nat (t div 10) @ ''.'' @ [digit_char (t mod 10)] @ '' MB'' \<and>
           2 * (10 * n) \<le> 2 * (1024 * 1024 * t) + 1024 * 1024 \<and>
           2 * (1024 * 1024 * t) \<le> 2 * (10 * n) + 1024 * 1024)) \<and>
   list_s3_files (s3_paginate 1000 docs_store) ''s3://bucket/docs'' =
     [\<lparr>file_name = ''a.txt'', file_uri = ''s3://bucket/docs/a.txt'', file_size = 500,
       size_str = ''500 B''\<rparr>,
      \<lparr>file_name = ''b.txt'', file_uri = ''s3://bucket/docs/sub/b.txt'', file_size = 2048,
       size_str = ''2.0 KB''\<rparr>]"
proof (intro conjI impI)
  assume "0 < page_size \<and> parse_s3_uri uri = (bucket, prefix0) \<and> store bucket = Some objs \<and>
    (\<forall>obj \<in> set objs. Size obj < 2 ^ 53)"
  then have a: "0 < page_size" "store bucket = Some objs" "parse_s3_uri uri = (bucket, prefix0)"
    by simp_all
  show "list_s3_files (s3_paginate page_size store) uri =
        map (file_entry bucket) (filter (listed (folder_prefix prefix0)) objs)"
    using list_s3_files_store [of page_size store bucket objs uri prefix0, OF a] .
next
  show "listed prefix obj \<longleftrightarrow>
      starts_with prefix (Key obj) \<and> Key obj \<noteq> prefix \<and> \<not> endswith_slash (Key obj)"
    by (simp add: listed_def)
  show "file_entry bucket obj =
     \<lparr>file_name = last_segment (Key obj), file_uri = ''s3://'' @ bucket @ ''/'' @ Key obj,
      file_size = Size obj, size_str = format_size (Size obj)\<rparr>"
    by (simp add: file_entry_def)
next
  assume "n < 1024"
  then show "format_size n = str_nat n @ '' B''" by (simp add: format_size_cases)
next
  assume a: "1024 \<le> n \<and> n < 1024 * 1024"
  let ?t = "round_half_even (10 * n) 1024"
  have "format_size n = str_nat (?t div 10) @ ''.'' @ [digit_char (?t mod 10)] @ '' KB''"
    using a by (simp add: format_size_cases format_1f_shape)
  moreover have "2 * (10 * n) \<le> 2 * (1024 * ?t) + 1024 \<and> 2 * (1024 * ?t) \<le> 2 * (10 * n) + 1024"
    using round_half_even_near [of 1024 "10 * n"] by simp
  ultimately show "\<exists>t. format_size n = str_nat (t div 10) @ ''.'' @ [digit_char (t mod 10)] @ '' KB'' \<and>
           2 * (10 * n) \<le> 2 * (1024 * t) + 1024 \<and> 2 * (1024 * t) \<le> 2 * (10 * n) + 1024"
    by (intro exI [where x = ?t]) simp
next
  assume a: "1024 * 1024 \<le> n \<and> n < 2 ^ 53"
  let ?t = "round_half_even (10 * n) (1024 * 1024)"
  have "format_size n = str_nat (?t div 10) @ ''.'' @ [digit_char (?t mod 10)] @ '' MB''"
    using a by (simp add: format_size_cases format_1f_shape)
  moreover have "2 * (10 * n) \<le> 2 * (1024 * 1024 * ?t) + 1024 * 1024 \<and>
                 2 * (1024 * 1024 * ?t) \<le> 2 * (10 * n) + 1024 * 1024"
    using round_half_even_near [of "1024 * 1024" "10 * n"] by simp
  ultimately show "\<exists>t. format_size n = str_nat (t div 10) @ ''.'' @ [digit_char (t mod 10)] @ '' MB'' \<and>
           2 * (10 * n) \<le> 2 * (1024 * 1024 * t) + 1024 * 1024 \<and>
           2 * (1024 * 1024 * t) \<le> 2 * (10 * n) + 1024 * 1024"
    by (intro exI [where x = ?t]) simp
next
  show "list_s3_files (s3_paginate 1000 docs_store) ''s3://bucket/docs'' =
     [\<lparr>file_name = ''a.txt'', file_uri = ''s3://bucket/docs/a.txt'', file_size = 500,
       size_str = ''500 B''\<rparr>,
      \<lparr>file_name = ''b.txt'', file_uri = ''s3://bucket/docs/sub/b.txt'', file_size = 2048,
       size_str = ''2.0 KB''\<rparr>]"
    by (rule docs_listing)
qed

text \<open>
  C8, amended, on the scenario listed one object a page, and on sizes of 500, 1280 and
  5000000 bytes.
\<close>

theorem C8_listing_witness:
  "list_s3_files (s3_paginate 1 docs_store) ''s3://bucket/docs'' =
     [\<lparr>file_name = ''a.txt'', file_uri = ''s3://bucket/docs/a.txt'', file_size = 500,
       size_str = ''500 B''\<rparr>,
      \<lparr>file_name = ''b.txt'', file_uri = ''s3://bucket/docs/sub/b.txt'', file_size = 2048,
       size_str = ''2.0 KB''\<rparr>] \<and>
   format_size 500 = ''500 B'' \<and>
   (\<exists>t. format_size 1280 = str_nat (t div 10) @ ''.'' @ [digit_char (t mod 10)] @ '' KB'' \<and>
        2 * (10 * 1280) \<le> 2 * (1024 * t) + 1024 \<and> 2 * (1024 * t) \<le> 2 * (10 * 1280) + 1024) \<and>
   (\<exists>t. format_size 5000000 = str_nat (t div 10) @ ''.'' @ [digit_char (t mod 10)] @ '' MB'' \<and>
        2 * (10 * 5000000) \<le> 2 * (1024 * 1024 * t) + 1024 * 1024 \<and>
        2 * (1024 * 1024 * t) \<le> 2 * (10 * 5000000) + 1024 * 1024)"
proof -
  let ?objs = "[\<lparr>Key = ''docs/'', Size = 0\<rparr>, \<lparr>Key = ''docs/a.txt'', Size = 500\<rparr>,
                \<lparr>Key = ''docs/sub/b.txt'', Size = 2048\<rparr>]"
  note a = C8_listing [where page_size = 1 and uri = "''s3://bucket/docs''" and bucket = "''bucket''"
      and prefix0 = "''docs''" and store = docs_store and objs = ?objs and n = 500
      and prefix = "''docs/''" and obj = "\<lparr>Key = ''docs/a.txt'', Size = 500\<rparr>"]
  note b = C8_listing [where page_size = 1 and uri = "''s3://bucket/docs''" and bucket = "''bucket''"
      and prefix0 = "''docs''" and store = docs_store and objs = ?objs and n = 1280
      and prefix = "''docs/''" and obj = "\<lparr>Key = ''docs/a.txt'', Size = 500\<rparr>"]
  note c = C8_listing [where page_size = 1 and uri = "''s3://bucket/docs''" and bucket = "''bucket''"
      and prefix0 = "''docs''" and store = docs_store and objs = ?objs and n = 5000000
      and prefix = "''docs/''" and obj = "\<lparr>Key = ''docs/a.txt'', Size = 500\<rparr>"]
  have st: "docs_store ''bucket'' = Some ?objs" by (simp add: docs_store_def)
  have a1: "list_s3_files (s3_paginate 1 docs_store) ''s3://bucket/docs'' =
     [\<lparr>file_name = ''a.txt'', file_uri = ''s3://bucket/docs/a.txt'', file_size = 500,
       size_str = ''500 B''\<rparr>,
      \<lparr>file_name = ''b.txt'', file_uri = ''s3://bucket/docs/sub/b.txt'', file_size = 2048,
       size_str = ''2.0 KB''\<rparr>]"
    using a [THEN conjunct1] by (simp add: st parse_docs folder_docs listed_docs entries_docs)
  have a2: "format_size 500 = ''500 B''"
    using a [THEN conjunct2, THEN conjunct2, THEN conjunct2, THEN conjunct1]
    by (simp add: str_nat.simps digit_char_def)
  have b1: "\<exists>t. format_size 1280 = str_nat (t div 10) @ ''.'' @ [digit_char (t mod 10)] @ '' KB'' \<and>
        2 * (10 * 1280) \<le> 2 * (1024 * t) + 1024 \<and> 2 * (1024 * t) \<le> 2 * (10 * 1280) + 1024"
    using b [THEN conjunct2, THEN conjunct2, THEN conjunct2, THEN conjunct2, THEN conjunct1]
    by simp
  have c1: "\<exists>t. format_size 5000000 = str_nat (t div 10) @ ''.'' @ [digit_char (t mod 10)] @ '' MB'' \<and>
        2 * (10 * 5000000) \<le> 2 * (1024 * 1024 * t) + 1024 * 1024 \<and>
        2 * (1024 * 1024 * t) \<le> 2 * (10 * 5000000) + 1024 * 1024"
    using c [THEN conjunct2, THEN conjunct2, THEN conjunct2, THEN conjunct2, THEN conjunct2,
             THEN conjunct1]
    by simp
  from a1 a2 b1 c1 show ?thesis by (intro conjI)
qed

end
